theory Spec2Isabelle
  imports Main
begin

section \<open>Time, errors and the relational store\<close>

text \<open>
  The security module (\<^verbatim>\<open>src/unnamed/part_008\<close>, required elsewhere as
  \<^verbatim>\<open>utils/security\<close>) is embedded function by function. Every function of the
  module that reaches the database takes the store and returns it updated.

  Instants are milliseconds since the epoch, as \<^verbatim>\<open>Date.getTime()\<close> counts them. A call
  takes the instant \<open>now\<close> at which it runs: every clock read inside one call
  (\<^verbatim>\<open>new Date()\<close>, \<^verbatim>\<open>Date.now()\<close>, SQL \<^verbatim>\<open>NOW()\<close>) yields that instant.
\<close>

type_synonym time = int

datatype error =
    StorageError
  | TypeError
  | KeyMismatch
  | AuthFailure
  | SyntaxError
  | Failure string

datatype detail = DStr string | DInt int | DBool bool

record user_row =
  email :: "string option"
  name :: "string option"
  failed_login_attempts :: int
  locked_until :: "time option"
  last_login :: "time option"

record audit_row =
  audit_user_id :: "nat option"
  event_type :: string
  ip_address :: "string option"
  user_agent :: "string option"
  success :: bool
  details :: "(string \<times> detail) list"
  audit_created_at :: time

record rate_row =
  rl_identifier :: string
  rl_endpoint :: string
  requests_count :: int
  window_start :: time
  blocked_until :: "time option"
  created_at :: time
  updated_at :: time

record session_row =
  session_id :: nat
  user_id :: nat
  session_token :: string
  refresh_token :: string
  device_info :: string
  session_ip :: "string option"
  session_user_agent :: "string option"
  expires_at :: time
  refresh_expires_at :: time
  last_used :: time
  is_active :: bool

text \<open>
  The store holds the four tables the module touches, the sequence behind
  \<^verbatim>\<open>user_sessions.id SERIAL\<close>, and a fault schedule: each \<^verbatim>\<open>db.query\<close> consumes the head
  of \<open>faults\<close> and raises when it is \<open>True\<close> (a lost connection, a statement timeout, a
  value a column rejects); an empty schedule means no further failure.
\<close>

record db =
  users :: "nat \<rightharpoonup> user_row"
  user_sessions :: "session_row list"
  user_sessions_seq :: nat
  rate_limits :: "rate_row list"
  security_audit_log :: "audit_row list"
  faults :: "bool list"

definition db_query :: "db \<Rightarrow> (error + unit) \<times> db" where
  "db_query w =
     (case faults w of
        [] \<Rightarrow> (Inr (), w)
      | b # bs \<Rightarrow> (if b then Inl StorageError else Inr (), w\<lparr>faults := bs\<rparr>))"

definition healthy :: "db \<Rightarrow> bool" where
  "healthy w = (True \<notin> set (faults w))"

text \<open>PostgreSQL's \<^verbatim>\<open>INTEGER\<close> is 32 bits wide and raises when a result leaves its range.\<close>

definition pg_integer :: "int \<Rightarrow> bool" where
  "pg_integer n = (- 2147483648 \<le> n \<and> n \<le> 2147483647)"

section \<open>Security audit logging\<close>

text \<open>
  \<^verbatim>\<open>logSecurityEvent\<close>: one \<^verbatim>\<open>INSERT INTO security_audit_log\<close> inside
  \<^verbatim>\<open>try\<close>; the \<^verbatim>\<open>catch\<close> writes to the console and returns. The insert also raises
  when \<open>user_id\<close> names no row of \<open>users\<close> (the column's foreign key).
\<close>

definition logSecurityEvent ::
  "time \<Rightarrow> nat option \<Rightarrow> string \<Rightarrow> string option \<Rightarrow> string option \<Rightarrow> bool \<Rightarrow>
   (string \<times> detail) list \<Rightarrow> db \<Rightarrow> (error + unit) \<times> db" where
  "logSecurityEvent now userId eventType ipAddress userAgent succ dets w =
     (case db_query w of
        (Inl e, w1) \<Rightarrow> (Inr (), w1)
      | (Inr _, w1) \<Rightarrow>
          (case userId of
             Some u \<Rightarrow>
               (if users w1 u = None then (Inr (), w1)
                else (Inr (), w1\<lparr>security_audit_log := security_audit_log w1 @
                  [\<lparr>audit_user_id = userId, event_type = eventType, ip_address = ipAddress,
                    user_agent = userAgent, success = succ, details = dets,
                    audit_created_at = now\<rparr>]\<rparr>))
           | None \<Rightarrow>
               (Inr (), w1\<lparr>security_audit_log := security_audit_log w1 @
                  [\<lparr>audit_user_id = userId, event_type = eventType, ip_address = ipAddress,
                    user_agent = userAgent, success = succ, details = dets,
                    audit_created_at = now\<rparr>]\<rparr>)))"

section \<open>Account lockout\<close>

record lockout_config =
  threshold :: int
  duration :: int

definition ACCOUNT_LOCKOUT :: lockout_config where
  "ACCOUNT_LOCKOUT = \<lparr>threshold = 5, duration = 30 * 60 * 1000\<rparr>"

text \<open>
  \<^verbatim>\<open>checkAccountLockout\<close>: a \<^verbatim>\<open>SELECT\<close> of the user's row; locked while
  \<open>locked_until\<close> is later than now; a lockout that has run out is cleared by an
  \<^verbatim>\<open>UPDATE\<close>. Any raised error is caught and answered \<open>False\<close>.
\<close>

definition checkAccountLockout :: "time \<Rightarrow> nat \<Rightarrow> db \<Rightarrow> bool \<times> db" where
  "checkAccountLockout now userId w =
     (case db_query w of
        (Inl e, w1) \<Rightarrow> (False, w1)
      | (Inr _, w1) \<Rightarrow>
          (case users w1 userId of
             None \<Rightarrow> (False, w1)
           | Some u \<Rightarrow>
               (case locked_until u of
                  None \<Rightarrow> (False, w1)
                | Some lu \<Rightarrow>
                    if lu > now then (True, w1)
                    else if lu \<le> now then
                      (case db_query w1 of
                         (Inl e, w2) \<Rightarrow> (False, w2)
                       | (Inr _, w2) \<Rightarrow>
                           (False, w2\<lparr>users := (users w2)(userId \<mapsto>
                              u\<lparr>failed_login_attempts := 0, locked_until := None\<rparr>)\<rparr>))
                    else (False, w1))))"

record failed_login_result =
  attempts :: int
  locked :: bool
  lockoutExpires :: "time option"

text \<open>
  \<^verbatim>\<open>handleFailedLogin\<close>: one \<^verbatim>\<open>UPDATE ... RETURNING\<close> that adds one to the counter
  and, when the new count reaches the threshold, sets \<open>locked_until\<close> to now plus the
  lockout duration; then the audit event. With no row for the user, reading
  \<^verbatim>\<open>result.rows[0]\<close> raises; every raised error ends in the \<^verbatim>\<open>catch\<close>, which returns
  \<^verbatim>\<open>{ attempts: 0, locked: false }\<close>.
\<close>

definition handleFailedLogin ::
  "time \<Rightarrow> nat \<Rightarrow> string option \<Rightarrow> string option \<Rightarrow> db \<Rightarrow> failed_login_result \<times> db" where
  "handleFailedLogin now userId ipAddress userAgent w =
     (case db_query w of
        (Inl e, w1) \<Rightarrow> (\<lparr>attempts = 0, locked = False, lockoutExpires = None\<rparr>, w1)
      | (Inr _, w1) \<Rightarrow>
          (case users w1 userId of
             None \<Rightarrow> (\<lparr>attempts = 0, locked = False, lockoutExpires = None\<rparr>, w1)
           | Some u \<Rightarrow>
               if \<not> pg_integer (failed_login_attempts u + 1)
               then (\<lparr>attempts = 0, locked = False, lockoutExpires = None\<rparr>, w1)
               else
                 let n = failed_login_attempts u + 1;
                     lu = (if failed_login_attempts u + 1 \<ge> threshold ACCOUNT_LOCKOUT
                           then Some (now + duration ACCOUNT_LOCKOUT)
                           else locked_until u);
                     w2 = w1\<lparr>users := (users w1)(userId \<mapsto>
                            u\<lparr>failed_login_attempts := n, locked_until := lu\<rparr>)\<rparr>
                 in (case logSecurityEvent now (Some userId) ''failed_login'' ipAddress userAgent
                            False [(''attempts'', DInt n), (''locked'', DBool (lu \<noteq> None))] w2 of
                       (Inl e, w3) \<Rightarrow>
                         (\<lparr>attempts = 0, locked = False, lockoutExpires = None\<rparr>, w3)
                     | (Inr _, w3) \<Rightarrow>
                         (\<lparr>attempts = n, locked = (lu \<noteq> None), lockoutExpires = lu\<rparr>, w3))))"

text \<open>
  \<^verbatim>\<open>handleSuccessfulLogin\<close>: resets the counter, clears the lockout, stamps
  \<open>last_login\<close>, then logs; it returns nothing, and its \<^verbatim>\<open>catch\<close> swallows every error.
\<close>

definition handleSuccessfulLogin ::
  "time \<Rightarrow> nat \<Rightarrow> string option \<Rightarrow> string option \<Rightarrow> db \<Rightarrow> unit \<times> db" where
  "handleSuccessfulLogin now userId ipAddress userAgent w =
     (case db_query w of
        (Inl e, w1) \<Rightarrow> ((), w1)
      | (Inr _, w1) \<Rightarrow>
          let w2 = (case users w1 userId of
                      None \<Rightarrow> w1
                    | Some u \<Rightarrow> w1\<lparr>users := (users w1)(userId \<mapsto>
                        u\<lparr>failed_login_attempts := 0, locked_until := None,
                          last_login := Some now\<rparr>)\<rparr>)
          in (case logSecurityEvent now (Some userId) ''login'' ipAddress userAgent True [] w2 of
                (Inl e, w3) \<Rightarrow> ((), w3)
              | (Inr _, w3) \<Rightarrow> ((), w3)))"

text \<open>Running the failed-login handler once per instant of a list, and the lockout check
  likewise, collecting the answers.\<close>

fun failed_logins :: "time list \<Rightarrow> nat \<Rightarrow> string option \<Rightarrow> string option \<Rightarrow> db \<Rightarrow> db" where
  "failed_logins [] userId ip ua w = w"
| "failed_logins (t # ts) userId ip ua w =
     failed_logins ts userId ip ua (snd (handleFailedLogin t userId ip ua w))"

fun lockout_checks :: "time list \<Rightarrow> nat \<Rightarrow> db \<Rightarrow> bool list \<times> db" where
  "lockout_checks [] userId w = ([], w)"
| "lockout_checks (t # ts) userId w =
     (case checkAccountLockout t userId w of
        (b, w1) \<Rightarrow> (case lockout_checks ts userId w1 of (bs, w2) \<Rightarrow> (b # bs, w2)))"

section \<open>Rate limiting\<close>

record rate_limit =
  requests :: int
  window :: int

definition RATE_LIMITS :: "string \<rightharpoonup> rate_limit" where
  "RATE_LIMITS =
     [''login'' \<mapsto> \<lparr>requests = 5, window = 15 * 60 * 1000\<rparr>,
      ''register'' \<mapsto> \<lparr>requests = 3, window = 60 * 60 * 1000\<rparr>,
      ''api'' \<mapsto> \<lparr>requests = 100, window = 60 * 60 * 1000\<rparr>,
      ''password_reset'' \<mapsto> \<lparr>requests = 3, window = 60 * 60 * 1000\<rparr>]"

text \<open>\<^verbatim>\<open>VARCHAR(n)\<close> holds a string of at most \<open>n\<close> characters and raises on a longer
  one.\<close>

definition varchar :: "nat \<Rightarrow> string \<Rightarrow> bool" where
  "varchar n s = (length s \<le> n)"

definition rate_key :: "string \<Rightarrow> string \<Rightarrow> rate_row \<Rightarrow> bool" where
  "rate_key ident ep r = (rl_identifier r = ident \<and> rl_endpoint r = ep)"

text \<open>\<^verbatim>\<open>ORDER BY created_at DESC LIMIT 1\<close>: a row with the latest \<open>created_at\<close>, the
  first such row of the table where several share it.\<close>

fun latest :: "rate_row list \<Rightarrow> rate_row option" where
  "latest [] = None"
| "latest (r # rs) =
     (case latest rs of
        None \<Rightarrow> Some r
      | Some r' \<Rightarrow> if created_at r' > created_at r then Some r' else Some r)"

definition update_rate :: "string \<Rightarrow> string \<Rightarrow> (rate_row \<Rightarrow> rate_row) \<Rightarrow> db \<Rightarrow> db" where
  "update_rate ident ep f w =
     w\<lparr>rate_limits := map (\<lambda>r. if rate_key ident ep r then f r else r) (rate_limits w)\<rparr>"

text \<open>
  \<^verbatim>\<open>checkRateLimit\<close>. An endpoint with no entry in \<open>RATE_LIMITS\<close> is always allowed.
  Otherwise the whole body is one \<^verbatim>\<open>try\<close> whose \<^verbatim>\<open>catch\<close> returns \<open>True\<close>:
  the \<^verbatim>\<open>SELECT\<close> of the pair's latest row, then one of: denied while blocked; inside
  the window with the count at the limit, the \<^verbatim>\<open>UPDATE\<close> of \<open>blocked_until\<close>, the
  audit event and a denial; inside the window below the limit, the increment; a window
  that has run out, the reset; no row, the \<^verbatim>\<open>INSERT\<close>. The columns
  \<open>identifier\<close> and \<open>endpoint\<close> of \<open>rate_limits\<close> are \<^verbatim>\<open>VARCHAR(255)\<close>: the
  \<^verbatim>\<open>INSERT\<close> of a longer value raises, and the \<^verbatim>\<open>catch\<close> allows the request
  with no row written. The identifier the callers pass is the client address read from
  the request's \<^verbatim>\<open>x-forwarded-for\<close> header, which the client writes.
\<close>

definition checkRateLimit :: "time \<Rightarrow> string \<Rightarrow> string \<Rightarrow> string \<Rightarrow> db \<Rightarrow> bool \<times> db" where
  "checkRateLimit now ident ep clientIp w =
     (case RATE_LIMITS ep of
        None \<Rightarrow> (True, w)
      | Some limit \<Rightarrow>
          let windowStart = now - window limit in
          (case db_query w of
             (Inl e, w1) \<Rightarrow> (True, w1)
           | (Inr _, w1) \<Rightarrow>
               (case latest (filter (rate_key ident ep) (rate_limits w1)) of
                  Some r \<Rightarrow>
                    if (case blocked_until r of None \<Rightarrow> False | Some b \<Rightarrow> b > now)
                    then (False, w1)
                    else if window_start r > windowStart then
                      (if requests_count r \<ge> requests limit then
                         (case db_query w1 of
                            (Inl e, w2) \<Rightarrow> (True, w2)
                          | (Inr _, w2) \<Rightarrow>
                              (case logSecurityEvent now None ''rate_limit_exceeded''
                                      (Some clientIp) None False
                                      [(''endpoint'', DStr ep), (''identifier'', DStr ident),
                                       (''requests_count'', DInt (requests_count r))]
                                      (update_rate ident ep
                                         (\<lambda>x. x\<lparr>blocked_until := Some (now + window limit)\<rparr>) w2) of
                                 (Inl e, w3) \<Rightarrow> (True, w3)
                               | (Inr _, w3) \<Rightarrow> (False, w3)))
                       else
                         (case db_query w1 of
                            (Inl e, w2) \<Rightarrow> (True, w2)
                          | (Inr _, w2) \<Rightarrow>
                              if list_ex (\<lambda>x. rate_key ident ep x \<and>
                                    \<not> pg_integer (requests_count x + 1)) (rate_limits w2)
                              then (True, w2)
                              else (True, update_rate ident ep
                                      (\<lambda>x. x\<lparr>requests_count := requests_count x + 1,
                                              updated_at := now\<rparr>) w2)))
                    else
                      (case db_query w1 of
                         (Inl e, w2) \<Rightarrow> (True, w2)
                       | (Inr _, w2) \<Rightarrow>
                           (True, update_rate ident ep
                              (\<lambda>x. x\<lparr>requests_count := 1, window_start := now,
                                      blocked_until := None, updated_at := now\<rparr>) w2))
                | None \<Rightarrow>
                    (case db_query w1 of
                       (Inl e, w2) \<Rightarrow> (True, w2)
                     | (Inr _, w2) \<Rightarrow>
                         if \<not> varchar 255 ident \<or> \<not> varchar 255 ep then (True, w2)
                         else
                           (True, w2\<lparr>rate_limits := rate_limits w2 @
                              [\<lparr>rl_identifier = ident, rl_endpoint = ep, requests_count = 1,
                                window_start = now, blocked_until = None, created_at = now,
                                updated_at = now\<rparr>]\<rparr>)))))"

text \<open>What a rate-limit row says, for the rows of one pair: the count, the start of the
  window and the end of the block.\<close>

definition rate_state :: "string \<Rightarrow> string \<Rightarrow> db \<Rightarrow> (int \<times> time \<times> time option) list" where
  "rate_state ident ep w =
     map (\<lambda>r. (requests_count r, window_start r, blocked_until r))
       (filter (rate_key ident ep) (rate_limits w))"

text \<open>Consecutive calls of the check for one pair, one per instant of the list.\<close>

fun rate_checks :: "time list \<Rightarrow> string \<Rightarrow> string \<Rightarrow> string \<Rightarrow> db \<Rightarrow> bool list \<times> db" where
  "rate_checks [] ident ep ip w = ([], w)"
| "rate_checks (t # ts) ident ep ip w =
     (case checkRateLimit t ident ep ip w of
        (b, w1) \<Rightarrow> (case rate_checks ts ident ep ip w1 of (bs, w2) \<Rightarrow> (b # bs, w2)))"

text \<open>The outcomes of the queries issued between a store and a later state of it: the
  part of the fault schedule consumed in between.\<close>

definition queries_run :: "db \<Rightarrow> db \<Rightarrow> bool list" where
  "queries_run w w' = take (length (faults w) - length (faults w')) (faults w)"

section \<open>Session management\<close>

text \<open>
  \<^verbatim>\<open>generateSecureToken\<close> draws 32 random bytes; the drawn tokens are arguments of the
  functions that call it. \<^verbatim>\<open>user_sessions\<close> declares \<open>id\<close> a primary key fed by a
  sequence, \<open>session_token\<close> and \<open>refresh_token\<close> \<^verbatim>\<open>UNIQUE\<close>, and \<open>user_id\<close> a
  reference to \<open>users\<close>: a statement that would break one of these raises.
\<close>

record new_session =
  sessionId :: nat
  sessionToken :: string
  refreshToken :: string
  expiresAt :: time
  refreshExpiresAt :: time

record refreshed_session = new_session +
  userId :: nat

record session_context =
  ctx_sessionId :: nat
  ctx_userId :: nat
  ctx_email :: "string option"
  ctx_name :: "string option"
  ctx_expiresAt :: time
  ctx_refreshExpiresAt :: time

definition createSession ::
  "time \<Rightarrow> string \<Rightarrow> string \<Rightarrow> nat \<Rightarrow> string \<Rightarrow> string option \<Rightarrow> string option \<Rightarrow> db \<Rightarrow>
   (error + new_session) \<times> db" where
  "createSession now newSessionToken newRefreshToken uid deviceInfo ipAddress userAgent w =
     (let expiresAt' = now + 24 * 60 * 60 * 1000;
          refreshExpiresAt' = now + 7 * 24 * 60 * 60 * 1000
      in case db_query w of
           (Inl e, w1) \<Rightarrow> (Inl (Failure ''Failed to create session''), w1)
         | (Inr _, w1) \<Rightarrow>
             let i = Suc (user_sessions_seq w1); w2 = w1\<lparr>user_sessions_seq := i\<rparr> in
             if users w2 uid = None
                \<or> i \<in> session_id ` set (user_sessions w2)
                \<or> newSessionToken \<in> session_token ` set (user_sessions w2)
                \<or> newRefreshToken \<in> refresh_token ` set (user_sessions w2)
             then (Inl (Failure ''Failed to create session''), w2)
             else
               (Inr \<lparr>sessionId = i, sessionToken = newSessionToken,
                     refreshToken = newRefreshToken, expiresAt = expiresAt',
                     refreshExpiresAt = refreshExpiresAt'\<rparr>,
                w2\<lparr>user_sessions := user_sessions w2 @
                  [\<lparr>session_id = i, user_id = uid, session_token = newSessionToken,
                    refresh_token = newRefreshToken, device_info = deviceInfo,
                    session_ip = ipAddress, session_user_agent = userAgent,
                    expires_at = expiresAt', refresh_expires_at = refreshExpiresAt',
                    last_used = now, is_active = True\<rparr>]\<rparr>))"

text \<open>The rows the \<^verbatim>\<open>SELECT ... JOIN users\<close> of \<^verbatim>\<open>validateSession\<close> returns, each with
  its user.\<close>

definition valid_sessions :: "time \<Rightarrow> string \<Rightarrow> db \<Rightarrow> (session_row \<times> user_row) list" where
  "valid_sessions now tok w =
     List.map_filter
       (\<lambda>s. case users w (user_id s) of
              None \<Rightarrow> None
            | Some u \<Rightarrow>
                if session_token s = tok \<and> is_active s \<and> expires_at s > now
                then Some (s, u) else None)
       (user_sessions w)"

definition validateSession :: "time \<Rightarrow> string \<Rightarrow> db \<Rightarrow> session_context option \<times> db" where
  "validateSession now tok w =
     (case db_query w of
        (Inl e, w1) \<Rightarrow> (None, w1)
      | (Inr _, w1) \<Rightarrow>
          (case valid_sessions now tok w1 of
             [] \<Rightarrow> (None, w1)
           | (s, u) # _ \<Rightarrow>
               (case db_query w1 of
                  (Inl e, w2) \<Rightarrow> (None, w2)
                | (Inr _, w2) \<Rightarrow>
                    (Some \<lparr>ctx_sessionId = session_id s, ctx_userId = user_id s,
                           ctx_email = email u, ctx_name = name u,
                           ctx_expiresAt = expires_at s,
                           ctx_refreshExpiresAt = refresh_expires_at s\<rparr>,
                     w2\<lparr>user_sessions :=
                          map (\<lambda>x. if session_id x = session_id s then x\<lparr>last_used := now\<rparr>
                                    else x) (user_sessions w2)\<rparr>))))"

definition refreshSession ::
  "time \<Rightarrow> string \<Rightarrow> string \<Rightarrow> string \<Rightarrow> db \<Rightarrow> refreshed_session option \<times> db" where
  "refreshSession now newSessionToken newRefreshToken tok w =
     (case db_query w of
        (Inl e, w1) \<Rightarrow> (None, w1)
      | (Inr _, w1) \<Rightarrow>
          (case filter (\<lambda>s. refresh_token s = tok \<and> is_active s \<and> refresh_expires_at s > now)
                  (user_sessions w1) of
             [] \<Rightarrow> (None, w1)
           | s # _ \<Rightarrow>
               let newExpiresAt = now + 24 * 60 * 60 * 1000;
                   newRefreshExpiresAt = now + 7 * 24 * 60 * 60 * 1000
               in (case db_query w1 of
                     (Inl e, w2) \<Rightarrow> (None, w2)
                   | (Inr _, w2) \<Rightarrow>
                       if list_ex (\<lambda>x. session_id x \<noteq> session_id s \<and>
                             (session_token x = newSessionToken \<or>
                              refresh_token x = newRefreshToken)) (user_sessions w2)
                       then (None, w2)
                       else
                         (Some \<lparr>sessionId = session_id s, sessionToken = newSessionToken,
                                refreshToken = newRefreshToken, expiresAt = newExpiresAt,
                                refreshExpiresAt = newRefreshExpiresAt, userId = user_id s\<rparr>,
                          w2\<lparr>user_sessions :=
                               map (\<lambda>x. if session_id x = session_id s
                                         then x\<lparr>session_token := newSessionToken,
                                                refresh_token := newRefreshToken,
                                                expires_at := newExpiresAt,
                                                refresh_expires_at := newRefreshExpiresAt,
                                                last_used := now\<rparr>
                                         else x) (user_sessions w2)\<rparr>))))"

definition revokeSession :: "string \<Rightarrow> db \<Rightarrow> bool \<times> db" where
  "revokeSession tok w =
     (case db_query w of
        (Inl e, w1) \<Rightarrow> (False, w1)
      | (Inr _, w1) \<Rightarrow>
          (True, w1\<lparr>user_sessions :=
             map (\<lambda>x. if session_token x = tok then x\<lparr>is_active := False\<rparr> else x)
               (user_sessions w1)\<rparr>))"

definition revokeAllUserSessions :: "nat \<Rightarrow> db \<Rightarrow> bool \<times> db" where
  "revokeAllUserSessions uid w =
     (case db_query w of
        (Inl e, w1) \<Rightarrow> (False, w1)
      | (Inr _, w1) \<Rightarrow>
          (True, w1\<lparr>user_sessions :=
             map (\<lambda>x. if user_id x = uid then x\<lparr>is_active := False\<rparr> else x)
               (user_sessions w1)\<rparr>))"

text \<open>The row \<open>refreshSession\<close> leaves in place of the one it selected.\<close>

definition rotated :: "time \<Rightarrow> string \<Rightarrow> string \<Rightarrow> session_row \<Rightarrow> session_row" where
  "rotated now nst nrt s =
     s\<lparr>session_token := nst, refresh_token := nrt, expires_at := now + 24 * 60 * 60 * 1000,
       refresh_expires_at := now + 7 * 24 * 60 * 60 * 1000, last_used := now\<rparr>"

text \<open>The constraints the schema puts on \<open>user_sessions\<close>.\<close>

definition sessions_schema :: "db \<Rightarrow> bool" where
  "sessions_schema w =
     (distinct (map session_id (user_sessions w)) \<and>
      distinct (map session_token (user_sessions w)) \<and>
      distinct (map refresh_token (user_sessions w)))"

text \<open>A session's refresh expiry lies strictly after its access expiry.\<close>

definition refresh_outlives_access :: "db \<Rightarrow> bool" where
  "refresh_outlives_access w =
     list_all (\<lambda>s. expires_at s < refresh_expires_at s) (user_sessions w)"

text \<open>The session operations as a transition system over the store.\<close>

datatype session_op =
    Create time string string nat string "string option" "string option"
  | Validate time string
  | Refresh time string string string
  | Revoke string
  | RevokeAll nat

fun run_op :: "session_op \<Rightarrow> db \<Rightarrow> db" where
  "run_op (Create now st rt uid di ip ua) w = snd (createSession now st rt uid di ip ua w)"
| "run_op (Validate now tok) w = snd (validateSession now tok w)"
| "run_op (Refresh now st rt tok) w = snd (refreshSession now st rt tok w)"
| "run_op (Revoke tok) w = snd (revokeSession tok w)"
| "run_op (RevokeAll uid) w = snd (revokeAllUserSessions uid w)"

fun run_ops :: "session_op list \<Rightarrow> db \<Rightarrow> db" where
  "run_ops [] w = w"
| "run_ops (x # xs) w = run_ops xs (run_op x w)"

section \<open>Encryption of data at rest\<close>

text \<open>
  \<^verbatim>\<open>EncryptionManager\<close> calls Node's \<^verbatim>\<open>crypto\<close> module, \<^verbatim>\<open>Buffer\<close> and \<^verbatim>\<open>JSON\<close>,
  which are not code of this repository. They are a parameter of the model, one field
  per use the class makes of them:
  \<^item> \<open>pbkdf2Sync password salt iterations keylen digest\<close>;
  \<^item> \<open>cipher algorithm key aad text\<close>: \<^verbatim>\<open>createCipher\<close>, \<^verbatim>\<open>setAAD\<close>,
    \<^verbatim>\<open>update\<close>, \<^verbatim>\<open>final\<close> and \<^verbatim>\<open>getAuthTag\<close>, giving the ciphertext and the tag;
  \<^item> \<open>decipher algorithm key aad tag ciphertext\<close>: \<^verbatim>\<open>createDecipher\<close>, \<^verbatim>\<open>setAAD\<close>,
    \<^verbatim>\<open>setAuthTag\<close>, \<^verbatim>\<open>update\<close> and \<^verbatim>\<open>final\<close>; \<open>None\<close> when \<^verbatim>\<open>final\<close> raises
    because the tag does not verify;
  \<^item> \<open>sha256_hex\<close>: \<^verbatim>\<open>createHash('sha256').update(s).digest('hex')\<close>;
  \<^item> \<open>to_base64\<close>, \<open>from_base64\<close>: the \<^verbatim>\<open>'base64'\<close> encoding of a buffer and
    \<^verbatim>\<open>Buffer.from(s, 'base64')\<close>;
  \<^item> \<open>json_stringify\<close> (\<open>None\<close> when it raises or yields \<^verbatim>\<open>undefined\<close>) and
    \<open>json_parse\<close> (\<open>None\<close> when it raises).
  Bytes are characters: a \<open>char\<close> of HOL is one byte.
\<close>

type_synonym bytes = "char list"

record 'v crypto_lib =
  pbkdf2Sync :: "string \<Rightarrow> bytes \<Rightarrow> nat \<Rightarrow> nat \<Rightarrow> string \<Rightarrow> bytes"
  cipher :: "string \<Rightarrow> bytes \<Rightarrow> bytes \<Rightarrow> string \<Rightarrow> bytes \<times> bytes"
  decipher :: "string \<Rightarrow> bytes \<Rightarrow> bytes \<Rightarrow> bytes \<Rightarrow> bytes \<Rightarrow> string option"
  sha256_hex :: "string \<Rightarrow> string"
  to_base64 :: "bytes \<Rightarrow> string"
  from_base64 :: "string \<Rightarrow> bytes"
  json_stringify :: "'v \<Rightarrow> string option"
  json_parse :: "string \<Rightarrow> 'v option"

definition ENCRYPTION_ALGORITHM :: string where
  "ENCRYPTION_ALGORITHM = ''aes-256-gcm''"

definition KEY_DERIVATION_ITERATIONS :: nat where
  "KEY_DERIVATION_ITERATIONS = 100000"

record encrypted_data =
  encrypted :: string
  salt :: string
  iv :: string
  authTag :: string
  keyId :: string

definition deriveKey :: "'v crypto_lib \<Rightarrow> string \<Rightarrow> bytes \<Rightarrow> bytes" where
  "deriveKey lib password saltBytes =
     pbkdf2Sync lib password saltBytes KEY_DERIVATION_ITERATIONS 32 ''sha256''"

text \<open>The key id: the first 16 characters of the hex SHA-256 digest of the master key
  (\<^verbatim>\<open>substring(0, 16)\<close>).\<close>

definition key_id :: "'v crypto_lib \<Rightarrow> string \<Rightarrow> string" where
  "key_id lib masterKey = take 16 (sha256_hex lib masterKey)"

text \<open>\<^verbatim>\<open>encrypt\<close>; the random salt and iv it draws are arguments.\<close>

definition encrypt ::
  "'v crypto_lib \<Rightarrow> string \<Rightarrow> bytes \<Rightarrow> bytes \<Rightarrow> 'v \<Rightarrow> error + encrypted_data" where
  "encrypt lib masterKey saltBytes ivBytes data =
     (let key = deriveKey lib masterKey saltBytes in
      case json_stringify lib data of
        None \<Rightarrow> Inl TypeError
      | Some text \<Rightarrow>
          (case cipher lib ENCRYPTION_ALGORITHM key saltBytes text of
             (ct, tag) \<Rightarrow>
               Inr \<lparr>encrypted = to_base64 lib ct, salt = to_base64 lib saltBytes,
                    iv = to_base64 lib ivBytes, authTag = to_base64 lib tag,
                    keyId = key_id lib masterKey\<rparr>))"

definition decrypt :: "'v crypto_lib \<Rightarrow> string \<Rightarrow> encrypted_data \<Rightarrow> error + 'v" where
  "decrypt lib masterKey encryptedData =
     (let currentKeyId = key_id lib masterKey in
      if keyId encryptedData \<noteq> currentKeyId then Inl KeyMismatch
      else
        let key = deriveKey lib masterKey (from_base64 lib (salt encryptedData)) in
        case decipher lib ENCRYPTION_ALGORITHM key (from_base64 lib (salt encryptedData))
               (from_base64 lib (authTag encryptedData))
               (from_base64 lib (encrypted encryptedData)) of
          None \<Rightarrow> Inl AuthFailure
        | Some text \<Rightarrow>
            (case json_parse lib text of
               None \<Rightarrow> Inl SyntaxError
             | Some v \<Rightarrow> Inr v))"

text \<open>What the model asks of the library: deciphering with the key, associated data and
  tag of an encipherment gives the text back, and base64 decodes what it encoded.\<close>

definition lib_contract :: "'v crypto_lib \<Rightarrow> bool" where
  "lib_contract lib =
     ((\<forall>alg key aad text.
         decipher lib alg key aad (snd (cipher lib alg key aad text))
           (fst (cipher lib alg key aad text)) = Some text) \<and>
      (\<forall>b. from_base64 lib (to_base64 lib b) = b))"

text \<open>A value survives JSON round-tripping when \<^verbatim>\<open>JSON.parse(JSON.stringify(x))\<close> is
  \<open>x\<close> again.\<close>

definition serializable :: "'v crypto_lib \<Rightarrow> 'v \<Rightarrow> bool" where
  "serializable lib x =
     (case json_stringify lib x of None \<Rightarrow> False | Some text \<Rightarrow> json_parse lib text = Some x)"

text \<open>A small library to run the model on: the derived key is the password followed by
  the salt, the ciphertext is the reversed text, the tag is the key followed by the
  associated data, the digest is the key itself, base64 and JSON are the identity on
  strings.\<close>

definition toy_lib :: "string crypto_lib" where
  "toy_lib =
     \<lparr>pbkdf2Sync = (\<lambda>password saltBytes iterations keylen digest. password @ saltBytes),
      cipher = (\<lambda>alg key aad text. (rev text, key @ aad)),
      decipher = (\<lambda>alg key aad tag ct. if tag = key @ aad then Some (rev ct) else None),
      sha256_hex = (\<lambda>s. s),
      to_base64 = (\<lambda>b. b),
      from_base64 = (\<lambda>s. s),
      json_stringify = Some,
      json_parse = Some\<rparr>"

section \<open>Concrete stores\<close>

text \<open>A store with one account, no failed attempt on record and no lockout.\<close>

definition lockout_db :: db where
  "lockout_db =
     \<lparr>users = [7 \<mapsto> \<lparr>email = Some ''ada@example.org'', name = Some ''Ada'',
                        failed_login_attempts = 0, locked_until = None, last_login = None\<rparr>],
      user_sessions = [], user_sessions_seq = 0, rate_limits = [],
      security_audit_log = [], faults = []\<rparr>"

text \<open>Two sessions, and a store with two accounts and one active session each.\<close>

definition ada_session :: session_row where
  "ada_session =
     \<lparr>session_id = 1, user_id = 7, session_token = ''s1'', refresh_token = ''r1'',
      device_info = ''web'', session_ip = None, session_user_agent = None,
      expires_at = 86400000, refresh_expires_at = 604800000, last_used = 0,
      is_active = True\<rparr>"

definition bob_session :: session_row where
  "bob_session =
     \<lparr>session_id = 2, user_id = 8, session_token = ''s2'', refresh_token = ''r2'',
      device_info = ''web'', session_ip = None, session_user_agent = None,
      expires_at = 86400000, refresh_expires_at = 604800000, last_used = 0,
      is_active = True\<rparr>"

definition sessions_db :: db where
  "sessions_db =
     \<lparr>users = [7 \<mapsto> \<lparr>email = Some ''ada@example.org'', name = Some ''Ada'',
                        failed_login_attempts = 0, locked_until = None, last_login = None\<rparr>,
               8 \<mapsto> \<lparr>email = Some ''bob@example.org'', name = Some ''Bob'',
                        failed_login_attempts = 0, locked_until = None, last_login = None\<rparr>],
      user_sessions = [ada_session, bob_session],
      user_sessions_seq = 2, rate_limits = [], security_audit_log = [], faults = []\<rparr>"

text \<open>An empty store, and a store where one address has used up its five logins of the
  current window while the third query from now will fail.\<close>

definition rate_db :: db where
  "rate_db =
     \<lparr>users = Map.empty, user_sessions = [], user_sessions_seq = 0, rate_limits = [],
      security_audit_log = [], faults = []\<rparr>"

definition blocked_db :: db where
  "blocked_db =
     \<lparr>users = Map.empty, user_sessions = [], user_sessions_seq = 0,
      rate_limits =
        [\<lparr>rl_identifier = ''1.2.3.4'', rl_endpoint = ''login'', requests_count = 5,
          window_start = 0, blocked_until = None, created_at = 0, updated_at = 4\<rparr>],
      security_audit_log = [], faults = [False, False, True]\<rparr>"

text \<open>An identifier of 256 characters, one more than the column holds.\<close>

definition long_identifier :: string where
  "long_identifier = replicate 256 CHR ''9''"

section \<open>Properties of the store and of audit logging\<close>

lemma db_query_healthy:
  "healthy w \<Longrightarrow> db_query w = (Inr (), w\<lparr>faults := tl (faults w)\<rparr>)"
  by (cases "faults w") (auto simp: db_query_def healthy_def)

lemma healthy_tl [simp]: "healthy w \<Longrightarrow> healthy (w\<lparr>faults := tl (faults w)\<rparr>)"
  by (cases "faults w") (auto simp: healthy_def)

lemma healthy_upd [simp]:
  "healthy (w\<lparr>users := us\<rparr>) = healthy w"
  "healthy (w\<lparr>security_audit_log := al\<rparr>) = healthy w"
  "healthy (w\<lparr>rate_limits := rl\<rparr>) = healthy w"
  "healthy (w\<lparr>user_sessions := ss\<rparr>) = healthy w"
  "healthy (w\<lparr>user_sessions_seq := n\<rparr>) = healthy w"
  by (simp_all add: healthy_def)

lemma ACCOUNT_LOCKOUT_simps [simp]:
  "threshold ACCOUNT_LOCKOUT = 5" "duration ACCOUNT_LOCKOUT = 1800000"
  by (simp_all add: ACCOUNT_LOCKOUT_def)

lemma db_query_frame [simp]:
  "users (snd (db_query w)) = users w"
  "user_sessions (snd (db_query w)) = user_sessions w"
  "user_sessions_seq (snd (db_query w)) = user_sessions_seq w"
  "rate_limits (snd (db_query w)) = rate_limits w"
  "security_audit_log (snd (db_query w)) = security_audit_log w"
  "faults (snd (db_query w)) = tl (faults w)"
  by (simp_all add: db_query_def split: list.splits)

lemma logSecurityEvent_returns [simp]: "fst (logSecurityEvent now uid ev ip ua s d w) = Inr ()"
  by (simp add: logSecurityEvent_def split: prod.splits sum.splits option.splits)

lemma logSecurityEvent_frame [simp]:
  "users (snd (logSecurityEvent now uid ev ip ua s d w)) = users w"
  "user_sessions (snd (logSecurityEvent now uid ev ip ua s d w)) = user_sessions w"
  "user_sessions_seq (snd (logSecurityEvent now uid ev ip ua s d w)) = user_sessions_seq w"
  "rate_limits (snd (logSecurityEvent now uid ev ip ua s d w)) = rate_limits w"
  "faults (snd (logSecurityEvent now uid ev ip ua s d w)) = tl (faults w)"
  by (simp_all add: logSecurityEvent_def case_prod_beta split: sum.splits option.splits)

lemma healthy_faults_tl: "healthy w \<Longrightarrow> faults w' = tl (faults w) \<Longrightarrow> healthy w'"
  by (cases "faults w") (auto simp: healthy_def)

lemma logSecurityEvent_healthy [simp]:
  "healthy w \<Longrightarrow> healthy (snd (logSecurityEvent now uid ev ip ua s d w))"
  by (rule healthy_faults_tl[of w]) simp_all

section \<open>Account lockout: five failures lock the account for thirty minutes\<close>

lemma handleFailedLogin_users:
  assumes "healthy w" "users w uid = Some u" "pg_integer (failed_login_attempts u + 1)"
  shows "users (snd (handleFailedLogin now uid ip ua w)) =
           (users w)(uid \<mapsto> u\<lparr>failed_login_attempts := failed_login_attempts u + 1,
              locked_until := (if failed_login_attempts u + 1 \<ge> 5 then Some (now + 1800000)
                               else locked_until u)\<rparr>)"
    and "healthy (snd (handleFailedLogin now uid ip ua w))"
  using assms
  by (simp_all add: handleFailedLogin_def db_query_healthy Let_def case_prod_beta)

lemma failed_logins_users:
  assumes "healthy w" "users w uid = Some u" "0 \<le> failed_login_attempts u"
    "failed_login_attempts u + int (length ts) \<le> 2147483647"
  shows "users (failed_logins ts uid ip ua w) =
           (users w)(uid \<mapsto> u\<lparr>failed_login_attempts := failed_login_attempts u + int (length ts),
              locked_until := (if ts \<noteq> [] \<and> failed_login_attempts u + int (length ts) \<ge> 5
                               then Some (last ts + 1800000) else locked_until u)\<rparr>)
         \<and> healthy (failed_logins ts uid ip ua w)"
  using assms
proof (induction ts arbitrary: w u)
  case Nil
  then show ?case by (simp add: map_upd_triv)
next
  case (Cons t ts)
  let ?u1 = "u\<lparr>failed_login_attempts := failed_login_attempts u + 1,
              locked_until := (if failed_login_attempts u + 1 \<ge> 5 then Some (t + 1800000)
                               else locked_until u)\<rparr>"
  let ?w1 = "snd (handleFailedLogin t uid ip ua w)"
  have pg: "pg_integer (failed_login_attempts u + 1)"
    using Cons.prems by (simp add: pg_integer_def)
  have u1: "users ?w1 = (users w)(uid \<mapsto> ?u1)" and h1: "healthy ?w1"
    using handleFailedLogin_users[OF Cons.prems(1,2) pg] by simp_all
  have "users (failed_logins ts uid ip ua ?w1) =
           (users ?w1)(uid \<mapsto> ?u1\<lparr>failed_login_attempts := failed_login_attempts ?u1 + int (length ts),
              locked_until := (if ts \<noteq> [] \<and> failed_login_attempts ?u1 + int (length ts) \<ge> 5
                               then Some (last ts + 1800000) else locked_until ?u1)\<rparr>)
         \<and> healthy (failed_logins ts uid ip ua ?w1)"
    by (rule Cons.IH[OF h1]) (use u1 Cons.prems in simp_all)
  then show ?case
    using u1 by (auto simp: add.assoc)
qed


lemma checkAccountLockout_locked:
  assumes "healthy w" "users w uid = Some u" "locked_until u = Some lu" "now < lu"
  shows "fst (checkAccountLockout now uid w) = True"
    and "users (snd (checkAccountLockout now uid w)) = users w"
    and "healthy (snd (checkAccountLockout now uid w))"
  using assms by (simp_all add: checkAccountLockout_def db_query_healthy)

lemma checkAccountLockout_expired:
  assumes "healthy w" "users w uid = Some u" "locked_until u = Some lu" "lu \<le> now"
  shows "fst (checkAccountLockout now uid w) = False"
    and "users (snd (checkAccountLockout now uid w)) =
           (users w)(uid \<mapsto> u\<lparr>failed_login_attempts := 0, locked_until := None\<rparr>)"
  using assms by (simp_all add: checkAccountLockout_def db_query_healthy)

lemma lockout_checks_locked:
  assumes "healthy w" "users w uid = Some u" "locked_until u = Some lu"
    "\<forall>c\<in>set cs. c < lu"
  shows "fst (lockout_checks cs uid w) = replicate (length cs) True
         \<and> users (snd (lockout_checks cs uid w)) = users w
         \<and> healthy (snd (lockout_checks cs uid w))"
  using assms
proof (induction cs arbitrary: w)
  case Nil
  then show ?case by simp
next
  case (Cons c cs)
  let ?w1 = "snd (checkAccountLockout c uid w)"
  have c: "c < lu" using Cons.prems by simp
  note st = checkAccountLockout_locked[OF Cons.prems(1,2,3) c]
  have "fst (lockout_checks cs uid ?w1) = replicate (length cs) True
         \<and> users (snd (lockout_checks cs uid ?w1)) = users ?w1
         \<and> healthy (snd (lockout_checks cs uid ?w1))"
    by (rule Cons.IH) (use st Cons.prems in simp_all)
  then show ?case
    using st by (simp add: case_prod_beta)
qed

lemma lockout_checks_append:
  "lockout_checks (cs @ ds) uid w =
     (fst (lockout_checks cs uid w) @ fst (lockout_checks ds uid (snd (lockout_checks cs uid w))),
      snd (lockout_checks ds uid (snd (lockout_checks cs uid w))))"
  by (induction cs arbitrary: w) (simp_all add: case_prod_beta)

text \<open>
  Claim C1. An account starts with \<open>failed_login_attempts = 0\<close> and no lockout, and the
  store answers every query. After five consecutive calls of \<open>handleFailedLogin\<close> (at
  the instants \<open>ts\<close>) the counter is 5 and \<open>locked_until\<close> is thirty minutes after the
  fifth call. Every \<open>checkAccountLockout\<close> made before that instant (at the instants
  \<open>cs\<close>, however many) answers \<open>True\<close>; the first check at or after it (at \<open>c'\<close>)
  answers \<open>False\<close> and leaves the counter at 0 and \<open>locked_until\<close> cleared.
\<close>

theorem lockout_after_five_failures:
  assumes "healthy w" and "users w uid = Some u"
    and "failed_login_attempts u = 0" and "locked_until u = None"
    and "length ts = 5"
    and "\<forall>c\<in>set cs. c < last ts + 30 * 60 * 1000"
    and "last ts + 30 * 60 * 1000 \<le> c'"
  shows "users (failed_logins ts uid ip ua w) uid =
           Some (u\<lparr>failed_login_attempts := 5, locked_until := Some (last ts + 30 * 60 * 1000)\<rparr>)
       \<and> fst (lockout_checks (cs @ [c']) uid (failed_logins ts uid ip ua w)) =
           replicate (length cs) True @ [False]
       \<and> users (snd (lockout_checks (cs @ [c']) uid (failed_logins ts uid ip ua w))) uid =
           Some (u\<lparr>failed_login_attempts := 0, locked_until := None\<rparr>)"
proof -
  let ?w5 = "failed_logins ts uid ip ua w"
  let ?u5 = "u\<lparr>failed_login_attempts := 5, locked_until := Some (last ts + 1800000)\<rparr>"
  have ne: "ts \<noteq> []" using assms(5) by auto
  have "users ?w5 = (users w)(uid \<mapsto> u\<lparr>failed_login_attempts := failed_login_attempts u + int (length ts),
              locked_until := (if ts \<noteq> [] \<and> failed_login_attempts u + int (length ts) \<ge> 5
                               then Some (last ts + 1800000) else locked_until u)\<rparr>)
         \<and> healthy ?w5"
    by (rule failed_logins_users) (use assms in simp_all)
  then have u5: "users ?w5 uid = Some ?u5" and h5: "healthy ?w5"
    using assms(3,5) ne by simp_all
  let ?w6 = "snd (lockout_checks cs uid ?w5)"
  have ck: "fst (lockout_checks cs uid ?w5) = replicate (length cs) True
         \<and> users ?w6 = users ?w5 \<and> healthy ?w6"
    by (rule lockout_checks_locked[OF h5 u5, of "last ts + 1800000"]) (use assms(6) in simp_all)
  then have u6: "users ?w6 uid = Some ?u5" and h6: "healthy ?w6"
    using u5 by simp_all
  have ex: "fst (checkAccountLockout c' uid ?w6) = False"
    "users (snd (checkAccountLockout c' uid ?w6)) =
           (users ?w6)(uid \<mapsto> ?u5\<lparr>failed_login_attempts := 0, locked_until := None\<rparr>)"
    using checkAccountLockout_expired[OF h6 u6, of "last ts + 1800000" c'] assms(7) by simp_all
  show ?thesis
    using u5 ck ex by (simp add: lockout_checks_append case_prod_beta)
qed

theorem lockout_after_five_failures_witness:
  "users (failed_logins [100, 200, 300, 400, 500] 7 None None lockout_db) 7 =
     Some \<lparr>email = Some ''ada@example.org'', name = Some ''Ada'',
           failed_login_attempts = 5, locked_until = Some 1800500, last_login = None\<rparr>
   \<and> fst (lockout_checks [600, 1800499, 1800500] 7
            (failed_logins [100, 200, 300, 400, 500] 7 None None lockout_db)) =
       [True, True, False]
   \<and> users (snd (lockout_checks [600, 1800499, 1800500] 7
            (failed_logins [100, 200, 300, 400, 500] 7 None None lockout_db))) 7 =
     Some \<lparr>email = Some ''ada@example.org'', name = Some ''Ada'',
           failed_login_attempts = 0, locked_until = None, last_login = None\<rparr>"
proof -
  let ?u = "\<lparr>email = Some ''ada@example.org'', name = Some ''Ada'',
             failed_login_attempts = 0, locked_until = None, last_login = None\<rparr>"
  have h: "healthy lockout_db" by (simp add: healthy_def lockout_db_def)
  have u: "users lockout_db 7 = Some ?u" by (simp add: lockout_db_def)
  have a: "failed_login_attempts ?u = 0" and l: "locked_until ?u = None" by simp_all
  have n: "length [100, 200, 300, 400, 500 :: time] = 5" by simp
  have c: "\<forall>c\<in>set [600, 1800499 :: time]. c < last [100, 200, 300, 400, 500] + 30 * 60 * 1000"
    by simp
  have c': "last [100, 200, 300, 400, 500 :: time] + 30 * 60 * 1000 \<le> 1800500" by simp
  from lockout_after_five_failures[OF h u a l n c c', of None None] show ?thesis by simp
qed

section \<open>Encryption: round trip, key check, and the unused iv\<close>

lemma toy_lib_contract: "lib_contract toy_lib"
  by (simp add: lib_contract_def toy_lib_def)

lemma key_id_length: "length (key_id lib k) \<le> 16"
  by (simp add: key_id_def)

lemma key_id_collision: "\<exists>K1 K2. K1 \<noteq> K2 \<and> key_id lib K1 = key_id lib K2"
proof -
  have fin: "finite {s :: string. length s \<le> 16}"
    using finite_lists_length_le[of "UNIV :: char set" 16] by simp
  have "range (key_id lib) \<subseteq> {s. length s \<le> 16}"
    using key_id_length by auto
  then have "finite (range (key_id lib))"
    using fin finite_subset by blast
  moreover have "infinite (UNIV :: string set)"
    by (rule infinite_UNIV_listI)
  ultimately have "\<not> inj (key_id lib)"
    using finite_imageD by blast
  then show ?thesis
    by (auto simp: inj_on_def)
qed

lemma decrypt_same_key_id:
  "keyId r = key_id lib K \<Longrightarrow> decrypt lib K r \<noteq> Inl KeyMismatch"
  by (simp add: decrypt_def split: option.splits)

lemma encrypt_keyId: "encrypt lib K s i x = Inr r \<Longrightarrow> keyId r = key_id lib K"
  by (auto simp: encrypt_def split: option.splits prod.splits)

lemma encrypt_defined: "json_stringify lib x \<noteq> None \<Longrightarrow> \<exists>r. encrypt lib K s i x = Inr r"
  by (auto simp: encrypt_def split: option.splits prod.splits)

text \<open>
  Claim C2. With one master key, and a library whose decipher undoes its cipher and whose
  base64 decoding undoes its encoding, \<open>encrypt\<close> of a value that survives JSON
  round-tripping returns a record, and \<open>decrypt\<close> of that record under the same key
  returns the value.
\<close>

theorem decrypt_encrypt_roundtrip:
  assumes "lib_contract lib" and "serializable lib x"
  shows "\<exists>r. encrypt lib masterKey saltBytes ivBytes x = Inr r \<and> decrypt lib masterKey r = Inr x"
proof -
  from assms(2) obtain plain where s: "json_stringify lib x = Some plain" and p: "json_parse lib plain = Some x"
    by (auto simp: serializable_def split: option.splits)
  let ?key = "deriveKey lib masterKey saltBytes"
  obtain ct tag where c: "cipher lib ENCRYPTION_ALGORITHM ?key saltBytes plain = (ct, tag)"
    by (cases "cipher lib ENCRYPTION_ALGORITHM ?key saltBytes plain")
  let ?r = "\<lparr>encrypted = to_base64 lib ct, salt = to_base64 lib saltBytes,
                    iv = to_base64 lib ivBytes, authTag = to_base64 lib tag,
                    keyId = key_id lib masterKey\<rparr>"
  have e: "encrypt lib masterKey saltBytes ivBytes x = Inr ?r"
    using s c by (simp add: encrypt_def)
  have b: "\<And>b. from_base64 lib (to_base64 lib b) = b"
    using assms(1) by (simp add: lib_contract_def)
  have "decipher lib ENCRYPTION_ALGORITHM ?key saltBytes
          (snd (cipher lib ENCRYPTION_ALGORITHM ?key saltBytes plain))
          (fst (cipher lib ENCRYPTION_ALGORITHM ?key saltBytes plain)) = Some plain"
    using assms(1) unfolding lib_contract_def by blast
  then have d: "decipher lib ENCRYPTION_ALGORITHM ?key saltBytes tag ct = Some plain"
    using c by simp
  have "decrypt lib masterKey ?r = Inr x"
    using d p by (simp add: decrypt_def b)
  with e show ?thesis by blast
qed

theorem decrypt_encrypt_roundtrip_witness:
  "lib_contract toy_lib \<and> serializable toy_lib ''sk-live-42'' \<and>
   (\<exists>r. encrypt toy_lib ''master'' ''salt'' ''iv'' ''sk-live-42'' = Inr r \<and>
        decrypt toy_lib ''master'' r = Inr ''sk-live-42'')"
proof -
  have c: "lib_contract toy_lib" by (simp add: lib_contract_def toy_lib_def)
  have s: "serializable toy_lib ''sk-live-42''" by (simp add: serializable_def toy_lib_def)
  from decrypt_encrypt_roundtrip[OF c s] c s show ?thesis by blast
qed

text \<open>With the small library, two keys that agree on their first 16 characters: the key
  check passes and the failure reported is the tag's, not a key mismatch.\<close>

lemma key_id_collision_example:
  "encrypt toy_lib ''0123456789abcdef-old'' ''salt'' ''iv'' ''secret'' =
     Inr \<lparr>encrypted = ''terces'', salt = ''salt'', iv = ''iv'',
          authTag = ''0123456789abcdef-oldsaltsalt'', keyId = ''0123456789abcdef''\<rparr>"
  "decrypt toy_lib ''0123456789abcdef-new''
     \<lparr>encrypted = ''terces'', salt = ''salt'', iv = ''iv'',
      authTag = ''0123456789abcdef-oldsaltsalt'', keyId = ''0123456789abcdef''\<rparr> = Inl AuthFailure"
  by (simp_all add: encrypt_def decrypt_def toy_lib_def key_id_def deriveKey_def)

lemma key_id_check_cannot_separate_keys:
  assumes "json_stringify lib x \<noteq> None"
  shows "\<exists>K1 K2 r. K1 \<noteq> K2 \<and> encrypt lib K1 [] [] x = Inr r \<and>
           decrypt lib K2 r \<noteq> Inl KeyMismatch"
proof -
  obtain K1 K2 where k: "K1 \<noteq> K2" "key_id lib K1 = key_id lib K2"
    using key_id_collision by blast
  obtain r where r: "encrypt lib K1 [] [] x = Inr r"
    using encrypt_defined[OF assms] by blast
  have "keyId r = key_id lib K2"
    using encrypt_keyId[OF r] k(2) by simp
  then have "decrypt lib K2 r \<noteq> Inl KeyMismatch"
    by (rule decrypt_same_key_id)
  with k(1) r show ?thesis by blast
qed

text \<open>
  Claim C3, as stated: decrypting under any master key other than the one that encrypted
  raises the key-mismatch error. The check compares key ids, and a key id has at most 16
  characters, so among the master keys two different ones share a key id
  (\<open>key_id_collision\<close>); for such a pair the check passes and \<open>decrypt\<close> goes on to
  derive a key and decipher. The statement fails on the small library at the two keys
  shown, where \<open>decrypt\<close> ends in the tag's failure; and whatever the library, it fails
  for some pair of keys.
\<close>

theorem decrypt_other_key_counterexample:
  "encrypt toy_lib ''0123456789abcdef-old'' ''salt'' ''iv'' ''secret'' =
     Inr \<lparr>encrypted = ''terces'', salt = ''salt'', iv = ''iv'',
          authTag = ''0123456789abcdef-oldsaltsalt'', keyId = ''0123456789abcdef''\<rparr>
   \<and> ''0123456789abcdef-new'' \<noteq> ''0123456789abcdef-old''
   \<and> decrypt toy_lib ''0123456789abcdef-new''
        \<lparr>encrypted = ''terces'', salt = ''salt'', iv = ''iv'',
         authTag = ''0123456789abcdef-oldsaltsalt'', keyId = ''0123456789abcdef''\<rparr> =
       Inl AuthFailure
   \<and> \<not> (\<exists>lib x. json_stringify lib x \<noteq> None \<and>
        (\<forall>K1 K2 saltBytes ivBytes r. K1 \<noteq> K2 \<and> encrypt lib K1 saltBytes ivBytes x = Inr r
            \<longrightarrow> decrypt lib K2 r = Inl KeyMismatch))"
proof (intro conjI)
  show "encrypt toy_lib ''0123456789abcdef-old'' ''salt'' ''iv'' ''secret'' =
     Inr \<lparr>encrypted = ''terces'', salt = ''salt'', iv = ''iv'',
          authTag = ''0123456789abcdef-oldsaltsalt'', keyId = ''0123456789abcdef''\<rparr>"
    by (rule key_id_collision_example(1))
  show "''0123456789abcdef-new'' \<noteq> ''0123456789abcdef-old''"
    by simp
  show "decrypt toy_lib ''0123456789abcdef-new''
        \<lparr>encrypted = ''terces'', salt = ''salt'', iv = ''iv'',
         authTag = ''0123456789abcdef-oldsaltsalt'', keyId = ''0123456789abcdef''\<rparr> =
       Inl AuthFailure"
    by (rule key_id_collision_example(2))
  show "\<not> (\<exists>lib x. json_stringify lib x \<noteq> None \<and>
        (\<forall>K1 K2 saltBytes ivBytes r. K1 \<noteq> K2 \<and> encrypt lib K1 saltBytes ivBytes x = Inr r
            \<longrightarrow> decrypt lib K2 r = Inl KeyMismatch))"
  proof (rule notI, elim exE conjE)
    fix lib :: "'v crypto_lib" and x
    assume s: "json_stringify lib x \<noteq> None"
      and a: "\<forall>K1 K2 saltBytes ivBytes r. K1 \<noteq> K2 \<and> encrypt lib K1 saltBytes ivBytes x = Inr r
            \<longrightarrow> decrypt lib K2 r = Inl KeyMismatch"
    obtain K1 K2 r where k: "K1 \<noteq> K2" "encrypt lib K1 [] [] x = Inr r"
      "decrypt lib K2 r \<noteq> Inl KeyMismatch"
      using key_id_check_cannot_separate_keys[OF s] by blast
    from a have "K1 \<noteq> K2 \<and> encrypt lib K1 [] [] x = Inr r \<longrightarrow> decrypt lib K2 r = Inl KeyMismatch"
      by (elim allE)
    with k show False by simp
  qed
qed

text \<open>
  Claim C3, amended. For every record produced by \<open>encrypt\<close> under master key \<open>K1\<close>,
  \<open>decrypt\<close> under a master key \<open>K2\<close> whose key id differs from that of \<open>K1\<close> raises
  the key-mismatch error, and so returns no value.
\<close>

theorem decrypt_other_key_id:
  assumes "encrypt lib K1 saltBytes ivBytes x = Inr r" and "key_id lib K2 \<noteq> key_id lib K1"
  shows "decrypt lib K2 r = Inl KeyMismatch"
  using encrypt_keyId[OF assms(1)] assms(2) by (simp add: decrypt_def)

theorem decrypt_other_key_id_witness:
  "encrypt toy_lib ''old-key'' ''salt'' ''iv'' ''secret'' =
     Inr \<lparr>encrypted = ''terces'', salt = ''salt'', iv = ''iv'',
          authTag = ''old-keysaltsalt'', keyId = ''old-key''\<rparr> \<and>
   key_id toy_lib ''new-key'' \<noteq> key_id toy_lib ''old-key'' \<and>
   decrypt toy_lib ''new-key'' \<lparr>encrypted = ''terces'', salt = ''salt'', iv = ''iv'',
          authTag = ''old-keysaltsalt'', keyId = ''old-key''\<rparr> = Inl KeyMismatch"
proof -
  have e: "encrypt toy_lib ''old-key'' ''salt'' ''iv'' ''secret'' =
     Inr \<lparr>encrypted = ''terces'', salt = ''salt'', iv = ''iv'',
          authTag = ''old-keysaltsalt'', keyId = ''old-key''\<rparr>"
    by (simp add: encrypt_def toy_lib_def key_id_def deriveKey_def)
  have k: "key_id toy_lib ''new-key'' \<noteq> key_id toy_lib ''old-key''"
    by (simp add: key_id_def toy_lib_def)
  from decrypt_other_key_id[OF e k] e k show ?thesis by simp
qed

text \<open>
  Claim C10. The \<open>iv\<close> field of an encrypted record does not enter decryption: for every
  record and any two values put in its \<open>iv\<close> field, \<open>decrypt\<close> returns the same result.
  Nor does the iv drawn by \<open>encrypt\<close> enter the cipher: two runs of \<open>encrypt\<close> that
  differ only in the iv drawn give records that differ at most in the \<open>iv\<close> field.
\<close>

theorem iv_unused:
  "decrypt lib masterKey (r\<lparr>iv := va\<rparr>) = decrypt lib masterKey (r\<lparr>iv := vb\<rparr>) \<and>
   map_sum id (\<lambda>e. e\<lparr>iv := v\<rparr>) (encrypt lib masterKey saltBytes iva x) =
   map_sum id (\<lambda>e. e\<lparr>iv := v\<rparr>) (encrypt lib masterKey saltBytes ivb x)"
  by (simp add: decrypt_def encrypt_def split: option.splits prod.splits)

theorem iv_unused_witness:
  "decrypt toy_lib ''master'' \<lparr>encrypted = ''terces'', salt = ''salt'', iv = ''AAAA'',
          authTag = ''mastersaltsalt'', keyId = ''master''\<rparr> = Inr ''secret'' \<and>
   decrypt toy_lib ''master'' \<lparr>encrypted = ''terces'', salt = ''salt'', iv = ''BBBB'',
          authTag = ''mastersaltsalt'', keyId = ''master''\<rparr> = Inr ''secret'' \<and>
   encrypt toy_lib ''master'' ''salt'' ''AAAA'' ''secret'' =
     Inr \<lparr>encrypted = ''terces'', salt = ''salt'', iv = ''AAAA'',
          authTag = ''mastersaltsalt'', keyId = ''master''\<rparr> \<and>
   encrypt toy_lib ''master'' ''salt'' ''BBBB'' ''secret'' =
     Inr \<lparr>encrypted = ''terces'', salt = ''salt'', iv = ''BBBB'',
          authTag = ''mastersaltsalt'', keyId = ''master''\<rparr>"
  using iv_unused[where lib = toy_lib and masterKey = "''master''" and va = "''AAAA''"
      and vb = "''BBBB''" and iva = "''AAAA''" and ivb = "''BBBB''" and x = "''secret''"
      and saltBytes = "''salt''" and v = "[]"
      and r = "\<lparr>encrypted = ''terces'', salt = ''salt'', iv = ''AAAA'',
          authTag = ''mastersaltsalt'', keyId = ''master''\<rparr>"]
  by (simp add: decrypt_def encrypt_def toy_lib_def key_id_def deriveKey_def)

section \<open>Sessions: rotation, revocation, and the expiry invariant\<close>

lemma valid_sessions_cong:
  "users w1 = users w2 \<Longrightarrow> user_sessions w1 = user_sessions w2 \<Longrightarrow>
   valid_sessions t tok w1 = valid_sessions t tok w2"
  by (simp add: valid_sessions_def)

lemma valid_sessions_db_query [simp]:
  "valid_sessions t tok (snd (db_query w)) = valid_sessions t tok w"
  by (rule valid_sessions_cong) simp_all

lemma valid_sessions_faults [simp]:
  "valid_sessions t tok (w\<lparr>faults := fs\<rparr>) = valid_sessions t tok w"
  by (rule valid_sessions_cong) simp_all

lemma validateSession_None:
  "valid_sessions t tok w = [] \<Longrightarrow> fst (validateSession t tok w) = None"
  by (simp add: validateSession_def case_prod_beta split: sum.splits)

lemma validateSession_fst_cong:
  assumes "valid_sessions t tok w1 = valid_sessions t tok w2" "faults w1 = faults w2"
  shows "fst (validateSession t tok w1) = fst (validateSession t tok w2)"
proof -
  have "fst (db_query w1) = fst (db_query w2)"
    "fst (db_query (snd (db_query w1))) = fst (db_query (snd (db_query w2)))"
    using assms(2) by (auto simp: db_query_def split: list.splits)
  then show ?thesis
    using assms(1) by (simp add: validateSession_def case_prod_beta split: sum.splits list.splits)
qed

lemma map_filter_empty_iff: "List.map_filter f xs = [] \<longleftrightarrow> (\<forall>x\<in>set xs. f x = None)"
  by (induction xs) (auto simp: List.map_filter_def)

lemma map_filter_map_cong:
  "(\<And>x. x \<in> set xs \<Longrightarrow> f (g x) = f x) \<Longrightarrow> List.map_filter f (map g xs) = List.map_filter f xs"
  by (induction xs) (auto simp: List.map_filter_def)

lemma valid_sessions_emptyI:
  assumes "\<And>s. s \<in> set (user_sessions w) \<Longrightarrow> session_token s = tok \<Longrightarrow> \<not> is_active s"
  shows "valid_sessions t tok w = []"
  unfolding valid_sessions_def map_filter_empty_iff
  using assms by (auto split: option.splits)

lemma valid_sessions_no_token:
  assumes "tok \<notin> session_token ` set (user_sessions w)"
  shows "valid_sessions t tok w = []"
  unfolding valid_sessions_def map_filter_empty_iff
  using assms by (auto split: option.splits)

lemma distinct_map_eq:
  "distinct (map f xs) \<Longrightarrow> x \<in> set xs \<Longrightarrow> y \<in> set xs \<Longrightarrow> f x = f y \<Longrightarrow> x = y"
  by (meson distinct_map inj_on_def)

lemma filter_unique:
  assumes "distinct (map f xs)" "s \<in> set xs" "P s"
  shows "filter (\<lambda>x. f x = f s \<and> P x) xs = [s]"
  using assms
proof (induction xs)
  case Nil
  then show ?case by simp
next
  case (Cons a xs)
  show ?case
  proof (cases "a = s")
    case True
    have "filter (\<lambda>x. f x = f s \<and> P x) xs = []"
      using Cons.prems(1) True by (auto simp: filter_empty_conv image_iff)
    then show ?thesis using True Cons.prems(3) by simp
  next
    case False
    then have "s \<in> set xs" using Cons.prems(2) by simp
    moreover have "f a \<noteq> f s" using Cons.prems(1) \<open>s \<in> set xs\<close> by auto
    ultimately show ?thesis using Cons by simp
  qed
qed

lemma createSession_outlives:
  "refresh_outlives_access w \<Longrightarrow>
   refresh_outlives_access (snd (createSession now st rt uid di ip ua w))"
  by (simp add: createSession_def refresh_outlives_access_def Let_def case_prod_beta
      split: sum.splits)

lemma validateSession_outlives:
  "refresh_outlives_access w \<Longrightarrow> refresh_outlives_access (snd (validateSession now tok w))"
  by (auto simp: validateSession_def refresh_outlives_access_def case_prod_beta list_all_iff
      split: sum.splits list.splits)

lemma refreshSession_outlives:
  "refresh_outlives_access w \<Longrightarrow>
   refresh_outlives_access (snd (refreshSession now st rt tok w))"
  by (auto simp: refreshSession_def refresh_outlives_access_def case_prod_beta list_all_iff Let_def
      split: sum.splits list.splits)

lemma revokeSession_outlives:
  "refresh_outlives_access w \<Longrightarrow> refresh_outlives_access (snd (revokeSession tok w))"
  by (auto simp: revokeSession_def refresh_outlives_access_def case_prod_beta list_all_iff
      split: sum.splits)

lemma revokeAllUserSessions_outlives:
  "refresh_outlives_access w \<Longrightarrow> refresh_outlives_access (snd (revokeAllUserSessions uid w))"
  by (auto simp: revokeAllUserSessions_def refresh_outlives_access_def case_prod_beta list_all_iff
      split: sum.splits)

lemma run_op_outlives:
  "refresh_outlives_access w \<Longrightarrow> refresh_outlives_access (run_op x w)"
  by (cases x)
     (simp_all add: createSession_outlives validateSession_outlives refreshSession_outlives
        revokeSession_outlives revokeAllUserSessions_outlives)

lemma refreshSession_null:
  assumes "list_all (\<lambda>s. refresh_token s = tok \<longrightarrow> \<not> is_active s \<or> refresh_expires_at s \<le> now)
             (user_sessions w)"
  shows "fst (refreshSession now nst nrt tok w) = None"
    and "user_sessions (snd (refreshSession now nst nrt tok w)) = user_sessions w"
proof -
  have "filter (\<lambda>s. refresh_token s = tok \<and> is_active s \<and> refresh_expires_at s > now)
          (user_sessions w) = []"
    using assms by (auto simp: filter_empty_conv list_all_iff)
  then show "fst (refreshSession now nst nrt tok w) = None"
    and "user_sessions (snd (refreshSession now nst nrt tok w)) = user_sessions w"
    by (simp_all add: refreshSession_def case_prod_beta split: sum.splits)
qed

lemma refreshSession_rotates:
  assumes h: "healthy w" and sc: "sessions_schema w"
    and s: "s \<in> set (user_sessions w)" and t: "refresh_token s = tok"
    and a: "is_active s" and e: "now < refresh_expires_at s"
    and f1: "nst \<notin> session_token ` set (user_sessions w)"
    and f2: "nrt \<notin> refresh_token ` set (user_sessions w)"
  shows "fst (refreshSession now nst nrt tok w) =
           Some \<lparr>sessionId = session_id s, sessionToken = nst, refreshToken = nrt,
                 expiresAt = now + 24 * 60 * 60 * 1000,
                 refreshExpiresAt = now + 7 * 24 * 60 * 60 * 1000, userId = user_id s\<rparr>"
    and "user_sessions (snd (refreshSession now nst nrt tok w)) =
           map (\<lambda>x. if x = s then rotated now nst nrt s else x) (user_sessions w)"
    and "users (snd (refreshSession now nst nrt tok w)) = users w"
proof -
  have d: "distinct (map refresh_token (user_sessions w))" and di: "distinct (map session_id (user_sessions w))"
    using sc by (simp_all add: sessions_schema_def)
  have "filter (\<lambda>x. refresh_token x = refresh_token s \<and> (is_active x \<and> refresh_expires_at x > now))
          (user_sessions w) = [s]"
    by (rule filter_unique[OF d s]) (use a e in simp)
  then have sel: "filter (\<lambda>x. refresh_token x = tok \<and> is_active x \<and> refresh_expires_at x > now)
          (user_sessions w) = [s]"
    using t by simp
  have nv: "\<not> list_ex (\<lambda>x. session_id x \<noteq> session_id s \<and>
             (session_token x = nst \<or> refresh_token x = nrt)) (user_sessions w)"
    using f1 f2 by (auto simp: list_ex_iff)
  have m: "map (\<lambda>x. if session_id x = session_id s
                     then x\<lparr>session_token := nst, refresh_token := nrt,
                            expires_at := now + 86400000,
                            refresh_expires_at := now + 604800000,
                            last_used := now\<rparr>
                     else x) (user_sessions w) =
           map (\<lambda>x. if x = s then rotated now nst nrt s else x) (user_sessions w)"
    using distinct_map_eq[OF di _ s] by (auto simp: rotated_def)
  show "fst (refreshSession now nst nrt tok w) =
           Some \<lparr>sessionId = session_id s, sessionToken = nst, refreshToken = nrt,
                 expiresAt = now + 24 * 60 * 60 * 1000,
                 refreshExpiresAt = now + 7 * 24 * 60 * 60 * 1000, userId = user_id s\<rparr>"
    using h sel nv by (simp add: refreshSession_def db_query_healthy Let_def)
  show "user_sessions (snd (refreshSession now nst nrt tok w)) =
           map (\<lambda>x. if x = s then rotated now nst nrt s else x) (user_sessions w)"
    using h sel nv by (simp add: refreshSession_def db_query_healthy Let_def m)
  show  "users (snd (refreshSession now nst nrt tok w)) = users w"
    using h sel nv by (simp add: refreshSession_def db_query_healthy Let_def)
qed

lemma old_token_gone:
  assumes sc: "sessions_schema w" and s: "s \<in> set (user_sessions w)"
    and f1: "nst \<notin> session_token ` set (user_sessions w)"
    and us: "user_sessions w' = map (\<lambda>x. if x = s then rotated now nst nrt s else x) (user_sessions w)"
  shows "session_token s \<notin> session_token ` set (user_sessions w')"
proof
  assume "session_token s \<in> session_token ` set (user_sessions w')"
  then obtain y where y: "y \<in> set (user_sessions w')" "session_token y = session_token s"
    by auto
  then obtain x where x: "x \<in> set (user_sessions w)" "y = (if x = s then rotated now nst nrt s else x)"
    using us by auto
  have d: "distinct (map session_token (user_sessions w))"
    using sc by (simp add: sessions_schema_def)
  show False
  proof (cases "x = s")
    case True
    then have "session_token y = nst" using x by (simp add: rotated_def)
    then show False using y(2) s f1 by auto
  next
    case False
    then have "session_token x = session_token s" using x y by simp
    then show False using distinct_map_eq[OF d x(1) s] False by simp
  qed
qed

lemma revokeAllUserSessions_True:
  assumes "revokeAllUserSessions uid w = (True, w')"
  shows "user_sessions w' =
           map (\<lambda>x. if user_id x = uid then x\<lparr>is_active := False\<rparr> else x) (user_sessions w)"
    and "users w' = users w"
  using assms
  by (auto simp: revokeAllUserSessions_def db_query_def split: list.splits if_splits)

lemma sessions_db_rows: "user_sessions sessions_db = [ada_session, bob_session]"
  by (simp add: sessions_db_def ada_session_def bob_session_def)

lemma sessions_db_ok: "healthy sessions_db" "sessions_schema sessions_db"
  by (simp_all add: healthy_def sessions_schema_def sessions_db_def ada_session_def bob_session_def)

text \<open>
  Claim C4. \<open>refreshSession\<close> returns nothing, and leaves the sessions as they are, when
  every record holding the refresh token is inactive or has its refresh expiry at or
  before now. Otherwise (an active record \<open>s\<close> holds the token, its refresh expiry is
  later than now, the store answers every query, the table meets its schema, and the two
  tokens just generated are held by no record) it returns the new pair of tokens with
  the access expiry 24 hours and the refresh expiry 7 days after the instant of the
  refresh call; the table is the old one with \<open>s\<close> replaced, in its place, by \<open>s\<close>
  carrying the new tokens and expiries; and from then on \<open>validateSession\<close> of the old
  session token returns nothing, at any instant and whatever the store's faults.
\<close>

theorem refresh_rotates_tokens:
  "(list_all (\<lambda>s. refresh_token s = tok \<longrightarrow> \<not> is_active s \<or> refresh_expires_at s \<le> now)
       (user_sessions w) \<longrightarrow>
     fst (refreshSession now nst nrt tok w) = None
     \<and> user_sessions (snd (refreshSession now nst nrt tok w)) = user_sessions w)
   \<and>
   (healthy w \<and> sessions_schema w \<and> s \<in> set (user_sessions w) \<and> refresh_token s = tok
      \<and> is_active s \<and> now < refresh_expires_at s
      \<and> nst \<notin> session_token ` set (user_sessions w)
      \<and> nrt \<notin> refresh_token ` set (user_sessions w) \<longrightarrow>
     fst (refreshSession now nst nrt tok w) =
       Some \<lparr>sessionId = session_id s, sessionToken = nst, refreshToken = nrt,
             expiresAt = now + 24 * 60 * 60 * 1000,
             refreshExpiresAt = now + 7 * 24 * 60 * 60 * 1000, userId = user_id s\<rparr>
     \<and> user_sessions (snd (refreshSession now nst nrt tok w)) =
         map (\<lambda>x. if x = s
                   then s\<lparr>session_token := nst, refresh_token := nrt,
                          expires_at := now + 24 * 60 * 60 * 1000,
                          refresh_expires_at := now + 7 * 24 * 60 * 60 * 1000,
                          last_used := now\<rparr>
                   else x) (user_sessions w)
     \<and> (\<forall>t fs. fst (validateSession t (session_token s)
                      (snd (refreshSession now nst nrt tok w)\<lparr>faults := fs\<rparr>)) = None))"
proof (intro conjI impI)
  assume "list_all (\<lambda>s. refresh_token s = tok \<longrightarrow> \<not> is_active s \<or> refresh_expires_at s \<le> now)
       (user_sessions w)"
  then show "fst (refreshSession now nst nrt tok w) = None"
    and "user_sessions (snd (refreshSession now nst nrt tok w)) = user_sessions w"
    by (rule refreshSession_null)+
next
  assume p: "healthy w \<and> sessions_schema w \<and> s \<in> set (user_sessions w) \<and> refresh_token s = tok
      \<and> is_active s \<and> now < refresh_expires_at s
      \<and> nst \<notin> session_token ` set (user_sessions w)
      \<and> nrt \<notin> refresh_token ` set (user_sessions w)"
  let ?w' = "snd (refreshSession now nst nrt tok w)"
  have r: "fst (refreshSession now nst nrt tok w) =
           Some \<lparr>sessionId = session_id s, sessionToken = nst, refreshToken = nrt,
                 expiresAt = now + 24 * 60 * 60 * 1000,
                 refreshExpiresAt = now + 7 * 24 * 60 * 60 * 1000, userId = user_id s\<rparr>"
    and us: "user_sessions ?w' = map (\<lambda>x. if x = s then rotated now nst nrt s else x) (user_sessions w)"
    using refreshSession_rotates[of w s tok now nst nrt] p by simp_all
  show "fst (refreshSession now nst nrt tok w) =
           Some \<lparr>sessionId = session_id s, sessionToken = nst, refreshToken = nrt,
                 expiresAt = now + 24 * 60 * 60 * 1000,
                 refreshExpiresAt = now + 7 * 24 * 60 * 60 * 1000, userId = user_id s\<rparr>"
    by (rule r)
  show "user_sessions ?w' =
         map (\<lambda>x. if x = s
                   then s\<lparr>session_token := nst, refresh_token := nrt,
                          expires_at := now + 24 * 60 * 60 * 1000,
                          refresh_expires_at := now + 7 * 24 * 60 * 60 * 1000,
                          last_used := now\<rparr>
                   else x) (user_sessions w)"
    using us by (simp add: rotated_def)
  have gone: "session_token s \<notin> session_token ` set (user_sessions ?w')"
    by (rule old_token_gone[of w s nst ?w' now nrt]) (use p us in simp_all)
  show "\<forall>t fs. fst (validateSession t (session_token s) (?w'\<lparr>faults := fs\<rparr>)) = None"
  proof (intro allI)
    fix t fs
    have "valid_sessions t (session_token s) (?w'\<lparr>faults := fs\<rparr>) = []"
      using valid_sessions_no_token[OF gone] by simp
    then show "fst (validateSession t (session_token s) (?w'\<lparr>faults := fs\<rparr>)) = None"
      by (rule validateSession_None)
  qed
qed

theorem refresh_rotates_tokens_witness:
  "fst (refreshSession 604800000 ''s3'' ''r3'' ''r1'' sessions_db) = None
   \<and> fst (refreshSession 3600000 ''s3'' ''r3'' ''r1'' sessions_db) =
       Some \<lparr>sessionId = 1, sessionToken = ''s3'', refreshToken = ''r3'',
             expiresAt = 3600000 + 24 * 60 * 60 * 1000,
             refreshExpiresAt = 3600000 + 7 * 24 * 60 * 60 * 1000, userId = 7\<rparr>
   \<and> fst (validateSession 3600001 ''s1''
           (snd (refreshSession 3600000 ''s3'' ''r3'' ''r1'' sessions_db)\<lparr>faults := []\<rparr>)) = None"
proof -
  have a: "list_all (\<lambda>s. refresh_token s = ''r1'' \<longrightarrow> \<not> is_active s \<or> refresh_expires_at s \<le> 604800000)
       (user_sessions sessions_db)"
    by (simp add: sessions_db_def ada_session_def bob_session_def)
  have b: "ada_session \<in> set (user_sessions sessions_db)" "refresh_token ada_session = ''r1''"
    "is_active ada_session" "3600000 < refresh_expires_at ada_session"
    "''s3'' \<notin> session_token ` set (user_sessions sessions_db)"
    "''r3'' \<notin> refresh_token ` set (user_sessions sessions_db)"
    by (simp_all add: sessions_db_rows) (simp_all add: ada_session_def bob_session_def)
  from refresh_rotates_tokens[of "''r1''" 604800000 sessions_db "''s3''" "''r3''" ada_session] a
  have 1: "fst (refreshSession 604800000 ''s3'' ''r3'' ''r1'' sessions_db) = None"
    by blast
  from refresh_rotates_tokens[of "''r1''" 3600000 sessions_db "''s3''" "''r3''" ada_session]
    b sessions_db_ok
  have 2: "fst (refreshSession 3600000 ''s3'' ''r3'' ''r1'' sessions_db) =
       Some \<lparr>sessionId = session_id ada_session, sessionToken = ''s3'', refreshToken = ''r3'',
             expiresAt = 3600000 + 24 * 60 * 60 * 1000,
             refreshExpiresAt = 3600000 + 7 * 24 * 60 * 60 * 1000, userId = user_id ada_session\<rparr>"
    and 3: "\<forall>t fs. fst (validateSession t (session_token ada_session)
                      (snd (refreshSession 3600000 ''s3'' ''r3'' ''r1'' sessions_db)\<lparr>faults := fs\<rparr>)) = None"
    by blast+
  from 1 2 3 show ?thesis by (simp add: ada_session_def)
qed

text \<open>
  Claim C6. When \<open>revokeAllUserSessions uid\<close> has run its update (it returns \<open>True\<close>)
  on a table that meets its schema: \<open>validateSession\<close> returns nothing for the session
  token of every session of that owner, at any instant; every session record of another
  owner is unchanged, at its place in the table; and \<open>validateSession\<close> of another
  owner's session token returns what it returned before the revocation.
\<close>

theorem revokeAll_revokes_owner_only:
  assumes r: "revokeAllUserSessions uid w = (True, w')" and sc: "sessions_schema w"
  shows "(\<forall>s\<in>set (user_sessions w). user_id s = uid \<longrightarrow>
            (\<forall>t fs. fst (validateSession t (session_token s) (w'\<lparr>faults := fs\<rparr>)) = None))
       \<and> length (user_sessions w') = length (user_sessions w)
       \<and> (\<forall>i<length (user_sessions w). user_id (user_sessions w ! i) \<noteq> uid \<longrightarrow>
            user_sessions w' ! i = user_sessions w ! i)
       \<and> (\<forall>s\<in>set (user_sessions w). user_id s \<noteq> uid \<longrightarrow>
            (\<forall>t fs. fst (validateSession t (session_token s) (w'\<lparr>faults := fs\<rparr>)) =
                    fst (validateSession t (session_token s) (w\<lparr>faults := fs\<rparr>))))"
proof (intro conjI ballI impI allI)
  note us = revokeAllUserSessions_True[OF r]
  have d: "distinct (map session_token (user_sessions w))"
    using sc by (simp add: sessions_schema_def)
  show "length (user_sessions w') = length (user_sessions w)"
    using us by simp
  {
    fix i assume "i < length (user_sessions w)" "user_id (user_sessions w ! i) \<noteq> uid"
    then show "user_sessions w' ! i = user_sessions w ! i"
      using us by simp
  }
  {
    fix s t fs
    assume s: "s \<in> set (user_sessions w)" and o: "user_id s = uid"
    have "valid_sessions t (session_token s) w' = []"
    proof (rule valid_sessions_emptyI)
      fix y assume "y \<in> set (user_sessions w')" and tk: "session_token y = session_token s"
      then obtain x where x: "x \<in> set (user_sessions w)"
        "y = (if user_id x = uid then x\<lparr>is_active := False\<rparr> else x)"
        using us by auto
      then have "session_token x = session_token s" using tk by (auto split: if_splits)
      then have "x = s" using distinct_map_eq[OF d x(1) s] by simp
      then show "\<not> is_active y" using x o by simp
    qed
    then have "valid_sessions t (session_token s) (w'\<lparr>faults := fs\<rparr>) = []" by simp
    then show "fst (validateSession t (session_token s) (w'\<lparr>faults := fs\<rparr>)) = None"
      by (rule validateSession_None)
  }
  {
    fix s t fs
    assume s: "s \<in> set (user_sessions w)" and o: "user_id s \<noteq> uid"
    have "valid_sessions t (session_token s) w' = valid_sessions t (session_token s) w"
      unfolding valid_sessions_def us
    proof (rule map_filter_map_cong)
      fix x assume x: "x \<in> set (user_sessions w)"
      have "user_id x = uid \<Longrightarrow> session_token x \<noteq> session_token s"
        using distinct_map_eq[OF d x s] o by auto
      then show "(case users w (user_id (if user_id x = uid then x\<lparr>is_active := False\<rparr> else x)) of
            None \<Rightarrow> None
          | Some u \<Rightarrow>
              if session_token (if user_id x = uid then x\<lparr>is_active := False\<rparr> else x) = session_token s \<and>
                 is_active (if user_id x = uid then x\<lparr>is_active := False\<rparr> else x) \<and>
                 t < expires_at (if user_id x = uid then x\<lparr>is_active := False\<rparr> else x)
              then Some (if user_id x = uid then x\<lparr>is_active := False\<rparr> else x, u) else None) =
         (case users w (user_id x) of None \<Rightarrow> None
          | Some u \<Rightarrow>
              if session_token x = session_token s \<and> is_active x \<and> t < expires_at x
              then Some (x, u) else None)"
        by (auto split: option.splits)
    qed
    then have "valid_sessions t (session_token s) (w'\<lparr>faults := fs\<rparr>) =
               valid_sessions t (session_token s) (w\<lparr>faults := fs\<rparr>)"
      by simp
    then show "fst (validateSession t (session_token s) (w'\<lparr>faults := fs\<rparr>)) =
               fst (validateSession t (session_token s) (w\<lparr>faults := fs\<rparr>))"
      by (rule validateSession_fst_cong) simp
  }
qed

theorem revokeAll_revokes_owner_only_witness:
  "revokeAllUserSessions 7 sessions_db =
     (True, sessions_db\<lparr>user_sessions := [ada_session\<lparr>is_active := False\<rparr>, bob_session]\<rparr>)
   \<and> sessions_schema sessions_db
   \<and> fst (validateSession 5 ''s1'' sessions_db) \<noteq> None
   \<and> fst (validateSession 5 ''s1''
       (sessions_db\<lparr>user_sessions := [ada_session\<lparr>is_active := False\<rparr>, bob_session]\<rparr>)) = None
   \<and> fst (validateSession 5 ''s2''
       (sessions_db\<lparr>user_sessions := [ada_session\<lparr>is_active := False\<rparr>, bob_session]\<rparr>)) =
     Some \<lparr>ctx_sessionId = 2, ctx_userId = 8, ctx_email = Some ''bob@example.org'',
           ctx_name = Some ''Bob'', ctx_expiresAt = 86400000,
           ctx_refreshExpiresAt = 604800000\<rparr>"
proof -
  let ?w' = "sessions_db\<lparr>user_sessions := [ada_session\<lparr>is_active := False\<rparr>, bob_session]\<rparr>"
  have r: "revokeAllUserSessions 7 sessions_db = (True, ?w')"
    by (simp add: revokeAllUserSessions_def db_query_def sessions_db_def ada_session_def bob_session_def)
  have f: "faults sessions_db = []" by (simp add: sessions_db_def ada_session_def bob_session_def)
  have v1: "fst (validateSession 5 ''s1'' sessions_db) \<noteq> None"
    and v2: "fst (validateSession 5 ''s2'' sessions_db) =
     Some \<lparr>ctx_sessionId = 2, ctx_userId = 8, ctx_email = Some ''bob@example.org'',
           ctx_name = Some ''Bob'', ctx_expiresAt = 86400000,
           ctx_refreshExpiresAt = 604800000\<rparr>"
    by (simp_all add: validateSession_def valid_sessions_def List.map_filter_def db_query_def
        sessions_db_def ada_session_def bob_session_def)
  have w: "sessions_db\<lparr>faults := []\<rparr> = sessions_db" "?w'\<lparr>faults := []\<rparr> = ?w'"
    using f by simp_all
  from revokeAll_revokes_owner_only[OF r sessions_db_ok(2)]
  have "fst (validateSession 5 (session_token ada_session) (?w'\<lparr>faults := []\<rparr>)) = None"
    and "fst (validateSession 5 (session_token bob_session) (?w'\<lparr>faults := []\<rparr>)) =
         fst (validateSession 5 (session_token bob_session) (sessions_db\<lparr>faults := []\<rparr>))"
    by (simp_all add: sessions_db_rows ada_session_def bob_session_def)
  then show ?thesis
    using r v1 v2 sessions_db_ok(2) unfolding w by (simp add: ada_session_def bob_session_def)
qed

text \<open>
  Claim C9. In every session record the refresh expiry is strictly later than the access
  expiry: the property holds of the empty table, \<open>createSession\<close> and \<open>refreshSession\<close>
  preserve it, and so do validation and revocation; hence it holds after any sequence
  of session operations, whether their queries succeed or fail.
\<close>

theorem refresh_expiry_after_access_expiry:
  assumes "refresh_outlives_access w"
  shows "refresh_outlives_access (run_ops xs w)"
  using assms by (induction xs arbitrary: w) (simp_all add: run_op_outlives)

theorem refresh_expiry_after_access_expiry_witness:
  "refresh_outlives_access (sessions_db\<lparr>user_sessions := []\<rparr>)
   \<and> refresh_outlives_access
       (run_ops [Create 10 ''s9'' ''r9'' 7 ''web'' None None, Refresh 20 ''s10'' ''r10'' ''r9'']
          (sessions_db\<lparr>user_sessions := []\<rparr>))
   \<and> map (\<lambda>s. (expires_at s, refresh_expires_at s)) (user_sessions
       (run_ops [Create 10 ''s9'' ''r9'' 7 ''web'' None None, Refresh 20 ''s10'' ''r10'' ''r9'']
          (sessions_db\<lparr>user_sessions := []\<rparr>))) = [(86400020, 604800020)]"
proof -
  have i: "refresh_outlives_access (sessions_db\<lparr>user_sessions := []\<rparr>)"
    by (simp add: refresh_outlives_access_def)
  have e: "map (\<lambda>s. (expires_at s, refresh_expires_at s)) (user_sessions
       (run_ops [Create 10 ''s9'' ''r9'' 7 ''web'' None None, Refresh 20 ''s10'' ''r10'' ''r9'']
          (sessions_db\<lparr>user_sessions := []\<rparr>))) = [(86400020, 604800020)]"
    by (simp add: createSession_def refreshSession_def db_query_def sessions_db_def ada_session_def bob_session_def Let_def)
  have r: "refresh_outlives_access
       (run_ops [Create 10 ''s9'' ''r9'' 7 ''web'' None None, Refresh 20 ''s10'' ''r10'' ''r9'']
          (sessions_db\<lparr>user_sessions := []\<rparr>))"
    by (rule refresh_expiry_after_access_expiry[OF i])
  from i r e show ?thesis by blast
qed

section \<open>Storage failures: the rate limiter fails open, audit logging never raises\<close>

lemma queries_run_prefix: "set (take k (queries_run w w')) \<subseteq> set (take k (faults w))"
proof -
  have "take k (queries_run w w') = take (min k (length (faults w) - length (faults w'))) (faults w)"
    by (simp add: queries_run_def)
  then show ?thesis
    using set_take_subset_set_take[of "min k (length (faults w) - length (faults w'))" k "faults w"]
    by simp
qed

lemma fault_among_first_two:
  assumes "True \<in> set (take 2 xs)"
  obtains fs where "xs = True # fs" | fs where "xs = False # True # fs"
proof (cases xs)
  case Nil
  with assms show ?thesis by simp
next
  case (Cons a fs)
  show ?thesis
  proof (cases a)
    case True
    with Cons that(1) show ?thesis by simp
  next
    case False
    show ?thesis
    proof (cases fs)
      case Nil
      with assms Cons False show ?thesis by simp
    next
      case c2: (Cons b fs')
      with assms Cons False have b by (simp add: numeral_2_eq_2)
      with c2 Cons False that(2) show ?thesis by simp
    qed
  qed
qed

text \<open>
  Claim C7, as stated: whenever a query raises during \<open>checkRateLimit\<close>, the check
  returns \<open>True\<close>. In the store \<open>blocked_db\<close> the pair has reached its limit inside the
  window; the \<^verbatim>\<open>SELECT\<close> and the \<^verbatim>\<open>UPDATE\<close> of \<open>blocked_until\<close> succeed and the third
  query, the insert of the \<^verbatim>\<open>rate_limit_exceeded\<close> audit event, raises. That error is
  caught inside \<open>logSecurityEvent\<close>, and the check returns \<open>False\<close>.
\<close>

theorem rate_limit_fail_open_counterexample:
  "True \<in> set (queries_run blocked_db
      (snd (checkRateLimit 10 ''1.2.3.4'' ''login'' ''1.2.3.4'' blocked_db)))
   \<and> fst (checkRateLimit 10 ''1.2.3.4'' ''login'' ''1.2.3.4'' blocked_db) = False"
  by (simp add: checkRateLimit_def RATE_LIMITS_def blocked_db_def db_query_def
      logSecurityEvent_def update_rate_def rate_key_def queries_run_def)

text \<open>
  Claim C7, amended. For every identifier and endpoint, if one of the check's own
  queries on \<open>rate_limits\<close> raises (the \<^verbatim>\<open>SELECT\<close>, or the \<^verbatim>\<open>UPDATE\<close> or
  \<^verbatim>\<open>INSERT\<close> that follows it: the first two queries the check issues), the check
  returns \<open>True\<close>.
\<close>

theorem rate_limit_fail_open:
  assumes "True \<in> set (take 2 (queries_run w (snd (checkRateLimit t ident ep ip w))))"
  shows "fst (checkRateLimit t ident ep ip w) = True"
proof -
  have "True \<in> set (take 2 (faults w))"
    using assms queries_run_prefix by blast
  then consider fs where "faults w = True # fs" | fs where "faults w = False # True # fs"
    by (rule fault_among_first_two)
  then show ?thesis
  proof cases
    case 1
    then show ?thesis
      by (simp add: checkRateLimit_def db_query_def split: option.splits)
  next
    case 2
    show ?thesis
    proof (cases "RATE_LIMITS ep")
      case None
      then show ?thesis by (simp add: checkRateLimit_def)
    next
      case (Some limit)
      show ?thesis
      proof (cases "latest (filter (rate_key ident ep) (rate_limits w))")
        case None
        then show ?thesis using Some 2 by (simp add: checkRateLimit_def db_query_def)
      next
        case r: (Some r)
        show ?thesis
        proof (cases "case blocked_until r of None \<Rightarrow> False | Some b \<Rightarrow> b > t")
          case True
          then have "queries_run w (snd (checkRateLimit t ident ep ip w)) = [False]"
            using Some 2 r by (simp add: checkRateLimit_def db_query_def queries_run_def)
          with assms show ?thesis by simp
        next
          case False
          then show ?thesis
            using Some 2 r by (simp add: checkRateLimit_def db_query_def)
        qed
      qed
    qed
  qed
qed

theorem rate_limit_fail_open_witness:
  "True \<in> set (take 2 (queries_run (blocked_db\<lparr>faults := [False, True]\<rparr>)
      (snd (checkRateLimit 10 ''1.2.3.4'' ''login'' ''1.2.3.4''
         (blocked_db\<lparr>faults := [False, True]\<rparr>)))))
   \<and> fst (checkRateLimit 10 ''1.2.3.4'' ''login'' ''1.2.3.4''
         (blocked_db\<lparr>faults := [False, True]\<rparr>)) = True"
proof -
  have q: "True \<in> set (take 2 (queries_run (blocked_db\<lparr>faults := [False, True]\<rparr>)
      (snd (checkRateLimit 10 ''1.2.3.4'' ''login'' ''1.2.3.4''
         (blocked_db\<lparr>faults := [False, True]\<rparr>)))))"
    by (simp add: checkRateLimit_def RATE_LIMITS_def blocked_db_def db_query_def
        rate_key_def queries_run_def)
  from rate_limit_fail_open[OF q] q show ?thesis by blast
qed

text \<open>
  Claim C8. \<open>logSecurityEvent\<close> returns normally in every store, whatever the insert
  does. For each function of the module that logs (\<open>handleSuccessfulLogin\<close>,
  \<open>handleFailedLogin\<close>, the denying branch of \<open>checkRateLimit\<close>), take two runs from
  the same store that differ only in whether the audit insert raises: the function
  returns the same result and leaves the same \<open>users\<close> and \<open>rate_limits\<close> tables; in the
  run where the insert raises the audit log is left as it was.
\<close>

theorem audit_failure_is_swallowed:
  "fst (logSecurityEvent now uid ev ip ua s d w) = Inr ()
   \<and> users (snd (handleSuccessfulLogin now u ip ua (w\<lparr>faults := False # True # fs\<rparr>))) =
     users (snd (handleSuccessfulLogin now u ip ua (w\<lparr>faults := False # False # fs\<rparr>)))
   \<and> security_audit_log (snd (handleSuccessfulLogin now u ip ua (w\<lparr>faults := False # True # fs\<rparr>))) =
     security_audit_log w
   \<and> fst (handleFailedLogin now u ip ua (w\<lparr>faults := False # True # fs\<rparr>)) =
     fst (handleFailedLogin now u ip ua (w\<lparr>faults := False # False # fs\<rparr>))
   \<and> users (snd (handleFailedLogin now u ip ua (w\<lparr>faults := False # True # fs\<rparr>))) =
     users (snd (handleFailedLogin now u ip ua (w\<lparr>faults := False # False # fs\<rparr>)))
   \<and> security_audit_log (snd (handleFailedLogin now u ip ua (w\<lparr>faults := False # True # fs\<rparr>))) =
     security_audit_log w
   \<and> fst (checkRateLimit now ident ep cip (w\<lparr>faults := False # False # True # fs\<rparr>)) =
     fst (checkRateLimit now ident ep cip (w\<lparr>faults := False # False # False # fs\<rparr>))
   \<and> rate_limits (snd (checkRateLimit now ident ep cip (w\<lparr>faults := False # False # True # fs\<rparr>))) =
     rate_limits (snd (checkRateLimit now ident ep cip (w\<lparr>faults := False # False # False # fs\<rparr>)))
   \<and> security_audit_log (snd (checkRateLimit now ident ep cip (w\<lparr>faults := False # False # True # fs\<rparr>))) =
     security_audit_log w"
proof (intro conjI)
  show "fst (logSecurityEvent now uid ev ip ua s d w) = Inr ()"
    by (simp add: logSecurityEvent_def split: prod.splits sum.splits option.splits)
  show "users (snd (handleSuccessfulLogin now u ip ua (w\<lparr>faults := False # True # fs\<rparr>))) =
     users (snd (handleSuccessfulLogin now u ip ua (w\<lparr>faults := False # False # fs\<rparr>)))"
    by (simp add: handleSuccessfulLogin_def db_query_def logSecurityEvent_def Let_def
        split: option.splits)
  show "security_audit_log (snd (handleSuccessfulLogin now u ip ua (w\<lparr>faults := False # True # fs\<rparr>))) =
     security_audit_log w"
    by (simp add: handleSuccessfulLogin_def db_query_def logSecurityEvent_def Let_def
        split: option.splits)
  show "fst (handleFailedLogin now u ip ua (w\<lparr>faults := False # True # fs\<rparr>)) =
     fst (handleFailedLogin now u ip ua (w\<lparr>faults := False # False # fs\<rparr>))"
    by (simp add: handleFailedLogin_def db_query_def logSecurityEvent_def Let_def
        split: option.splits)
  show "users (snd (handleFailedLogin now u ip ua (w\<lparr>faults := False # True # fs\<rparr>))) =
     users (snd (handleFailedLogin now u ip ua (w\<lparr>faults := False # False # fs\<rparr>)))"
    by (simp add: handleFailedLogin_def db_query_def logSecurityEvent_def Let_def
        split: option.splits)
  show "security_audit_log (snd (handleFailedLogin now u ip ua (w\<lparr>faults := False # True # fs\<rparr>))) =
     security_audit_log w"
    by (simp add: handleFailedLogin_def db_query_def logSecurityEvent_def Let_def
        split: option.splits)
  show "fst (checkRateLimit now ident ep cip (w\<lparr>faults := False # False # True # fs\<rparr>)) =
     fst (checkRateLimit now ident ep cip (w\<lparr>faults := False # False # False # fs\<rparr>))"
    by (simp add: checkRateLimit_def db_query_def logSecurityEvent_def update_rate_def Let_def
        split: option.splits)
  show "rate_limits (snd (checkRateLimit now ident ep cip (w\<lparr>faults := False # False # True # fs\<rparr>))) =
     rate_limits (snd (checkRateLimit now ident ep cip (w\<lparr>faults := False # False # False # fs\<rparr>)))"
    by (simp add: checkRateLimit_def db_query_def logSecurityEvent_def update_rate_def Let_def
        split: option.splits)
  show "security_audit_log (snd (checkRateLimit now ident ep cip (w\<lparr>faults := False # False # True # fs\<rparr>))) =
     security_audit_log w"
    by (simp add: checkRateLimit_def db_query_def logSecurityEvent_def update_rate_def Let_def
        split: option.splits)
qed

theorem audit_failure_is_swallowed_witness:
  "fst (handleFailedLogin 100 7 None None (lockout_db\<lparr>faults := [False, True]\<rparr>)) =
     \<lparr>attempts = 1, locked = False, lockoutExpires = None\<rparr>
   \<and> security_audit_log
       (snd (handleFailedLogin 100 7 None None (lockout_db\<lparr>faults := [False, True]\<rparr>))) = []
   \<and> fst (handleFailedLogin 100 7 None None (lockout_db\<lparr>faults := [False, False]\<rparr>)) =
     \<lparr>attempts = 1, locked = False, lockoutExpires = None\<rparr>
   \<and> length (security_audit_log
       (snd (handleFailedLogin 100 7 None None (lockout_db\<lparr>faults := [False, False]\<rparr>)))) = 1"
proof -
  have ok: "fst (handleFailedLogin 100 7 None None (lockout_db\<lparr>faults := [False, False]\<rparr>)) =
     \<lparr>attempts = 1, locked = False, lockoutExpires = None\<rparr>"
    "length (security_audit_log
       (snd (handleFailedLogin 100 7 None None (lockout_db\<lparr>faults := [False, False]\<rparr>)))) = 1"
    by (simp_all add: handleFailedLogin_def db_query_def logSecurityEvent_def lockout_db_def
        pg_integer_def ACCOUNT_LOCKOUT_def Let_def)
  have l: "security_audit_log lockout_db = []" by (simp add: lockout_db_def)
  from audit_failure_is_swallowed[where w = lockout_db and fs = "[]" and u = 7 and now = 100
      and ip = None and ua = None]
  have "fst (handleFailedLogin 100 7 None None (lockout_db\<lparr>faults := [False, True]\<rparr>)) =
        fst (handleFailedLogin 100 7 None None (lockout_db\<lparr>faults := [False, False]\<rparr>))"
    and "security_audit_log
       (snd (handleFailedLogin 100 7 None None (lockout_db\<lparr>faults := [False, True]\<rparr>))) =
       security_audit_log lockout_db"
    by blast+
  with ok l show ?thesis by simp
qed

section \<open>Rate limiting: one window of requests, the block, and the fresh window\<close>

lemma notin_set_tl: "x \<notin> set xs \<Longrightarrow> x \<notin> set (tl xs)"
  by (cases xs) auto

lemma healthy_faults_update [simp]: "healthy (w\<lparr>faults := fs\<rparr>) \<longleftrightarrow> True \<notin> set fs"
  by (simp add: healthy_def)

lemma healthy_tl_faults [simp]: "healthy w \<Longrightarrow> True \<notin> set (tl (faults w))"
  by (simp add: healthy_def notin_set_tl)

lemma healthy_tl_tl [simp]: "healthy w \<Longrightarrow> True \<notin> set (tl (tl (faults w)))"
  by (simp add: healthy_def notin_set_tl)

lemma RATE_LIMITS_bounds:
  assumes "RATE_LIMITS ep = Some limit"
  shows "1 \<le> requests limit" "requests limit \<le> 100" "0 < window limit"
  using assms by (auto simp: RATE_LIMITS_def split: if_splits)

lemma RATE_LIMITS_endpoint:
  assumes "RATE_LIMITS ep = Some limit"
  shows "varchar 255 ep"
  using assms by (auto simp: RATE_LIMITS_def varchar_def split: if_splits)

lemma filter_update_rate:
  assumes "\<And>x. rl_identifier (f x) = rl_identifier x" "\<And>x. rl_endpoint (f x) = rl_endpoint x"
  shows "filter (rate_key ident ep) (rate_limits (update_rate ident ep f w)) =
         map f (filter (rate_key ident ep) (rate_limits w))"
proof -
  have "filter (rate_key ident ep) (map (\<lambda>r. if rate_key ident ep r then f r else r) xs) =
        map f (filter (rate_key ident ep) xs)" for xs
    using assms by (induction xs) (auto simp: rate_key_def)
  then show ?thesis by (simp add: update_rate_def)
qed

lemma update_rate_frame [simp]:
  "faults (update_rate ident ep f w) = faults w"
  "users (update_rate ident ep f w) = users w"
  "user_sessions (update_rate ident ep f w) = user_sessions w"
  "healthy (update_rate ident ep f w) = healthy w"
  by (simp_all add: update_rate_def healthy_def)

lemma list_ex_filter: "list_ex (\<lambda>x. P x \<and> Q x) xs = list_ex Q (filter P xs)"
  by (induction xs) auto

lemma rate_state_single:
  assumes "rate_state ident ep w = [(n, ws, b)]"
  obtains r where "filter (rate_key ident ep) (rate_limits w) = [r]"
    "requests_count r = n" "window_start r = ws" "blocked_until r = b"
  using assms by (auto simp: rate_state_def)

lemma check_first:
  assumes "RATE_LIMITS ep = Some limit" "healthy w" "rate_state ident ep w = []"
    "varchar 255 ident"
  shows "fst (checkRateLimit t ident ep ip w) = True"
    and "rate_state ident ep (snd (checkRateLimit t ident ep ip w)) = [(1, t, None)]"
    and "healthy (snd (checkRateLimit t ident ep ip w))"
  using assms RATE_LIMITS_endpoint[OF assms(1)]
  by (simp_all add: checkRateLimit_def db_query_healthy rate_state_def rate_key_def)

lemma check_increment:
  assumes "RATE_LIMITS ep = Some limit" "healthy w" "rate_state ident ep w = [(n, ws, b)]"
    "b = None \<or> the b \<le> t" "t - window limit < ws" "0 \<le> n" "n < requests limit"
  shows "fst (checkRateLimit t ident ep ip w) = True"
    and "rate_state ident ep (snd (checkRateLimit t ident ep ip w)) = [(n + 1, ws, b)]"
    and "healthy (snd (checkRateLimit t ident ep ip w))"
proof -
  obtain r where r: "filter (rate_key ident ep) (rate_limits w) = [r]"
    "requests_count r = n" "window_start r = ws" "blocked_until r = b"
    using assms(3) by (rule rate_state_single)
  have nb: "\<not> (case b of None \<Rightarrow> False | Some x \<Rightarrow> x > t)"
    using assms(4) by (auto split: option.splits)
  have pg: "pg_integer (n + 1)"
    using assms(6,7) RATE_LIMITS_bounds[OF assms(1)] by (simp add: pg_integer_def)
  have f: "filter (rate_key ident ep) (rate_limits (update_rate ident ep
             (\<lambda>x. x\<lparr>requests_count := requests_count x + 1, updated_at := t\<rparr>) w')) =
           map (\<lambda>x. x\<lparr>requests_count := requests_count x + 1, updated_at := t\<rparr>)
             (filter (rate_key ident ep) (rate_limits w'))" for w'
    by (rule filter_update_rate) simp_all
  show "fst (checkRateLimit t ident ep ip w) = True"
    and "rate_state ident ep (snd (checkRateLimit t ident ep ip w)) = [(n + 1, ws, b)]"
    and "healthy (snd (checkRateLimit t ident ep ip w))"
    using assms(1,2,5,7) r nb pg
    by (simp_all add: checkRateLimit_def db_query_healthy rate_state_def list_ex_filter f)
qed

lemma check_block:
  assumes "RATE_LIMITS ep = Some limit" "healthy w" "rate_state ident ep w = [(n, ws, b)]"
    "b = None \<or> the b \<le> t" "t - window limit < ws" "requests limit \<le> n"
  shows "fst (checkRateLimit t ident ep ip w) = False"
    and "rate_state ident ep (snd (checkRateLimit t ident ep ip w)) =
           [(n, ws, Some (t + window limit))]"
    and "healthy (snd (checkRateLimit t ident ep ip w))"
proof -
  obtain r where r: "filter (rate_key ident ep) (rate_limits w) = [r]"
    "requests_count r = n" "window_start r = ws" "blocked_until r = b"
    using assms(3) by (rule rate_state_single)
  have nb: "\<not> (case b of None \<Rightarrow> False | Some x \<Rightarrow> x > t)"
    using assms(4) by (auto split: option.splits)
  have f: "filter (rate_key ident ep) (rate_limits (update_rate ident ep
             (\<lambda>x. x\<lparr>blocked_until := Some (t + window limit)\<rparr>) w')) =
           map (\<lambda>x. x\<lparr>blocked_until := Some (t + window limit)\<rparr>)
             (filter (rate_key ident ep) (rate_limits w'))" for w'
    by (rule filter_update_rate) simp_all
  show "fst (checkRateLimit t ident ep ip w) = False"
    and "rate_state ident ep (snd (checkRateLimit t ident ep ip w)) =
           [(n, ws, Some (t + window limit))]"
    and "healthy (snd (checkRateLimit t ident ep ip w))"
    using assms(1,2,5,6) r nb
    by (simp_all add: checkRateLimit_def db_query_healthy rate_state_def case_prod_beta f)
qed

lemma check_blocked:
  assumes "RATE_LIMITS ep = Some limit" "healthy w" "rate_state ident ep w = [(n, ws, Some b)]"
    "t < b"
  shows "fst (checkRateLimit t ident ep ip w) = False"
    and "rate_state ident ep (snd (checkRateLimit t ident ep ip w)) = [(n, ws, Some b)]"
    and "healthy (snd (checkRateLimit t ident ep ip w))"
proof -
  obtain r where r: "filter (rate_key ident ep) (rate_limits w) = [r]"
    "requests_count r = n" "window_start r = ws" "blocked_until r = Some b"
    using assms(3) by (rule rate_state_single)
  show "fst (checkRateLimit t ident ep ip w) = False"
    and "rate_state ident ep (snd (checkRateLimit t ident ep ip w)) = [(n, ws, Some b)]"
    and "healthy (snd (checkRateLimit t ident ep ip w))"
    using assms(1,2,4) r
    by (simp_all add: checkRateLimit_def db_query_healthy rate_state_def)
qed

lemma check_reset:
  assumes "RATE_LIMITS ep = Some limit" "healthy w" "rate_state ident ep w = [(n, ws, b)]"
    "b = None \<or> the b \<le> t" "ws \<le> t - window limit"
  shows "fst (checkRateLimit t ident ep ip w) = True"
    and "rate_state ident ep (snd (checkRateLimit t ident ep ip w)) = [(1, t, None)]"
    and "healthy (snd (checkRateLimit t ident ep ip w))"
proof -
  obtain r where r: "filter (rate_key ident ep) (rate_limits w) = [r]"
    "requests_count r = n" "window_start r = ws" "blocked_until r = b"
    using assms(3) by (rule rate_state_single)
  have nb: "\<not> (case b of None \<Rightarrow> False | Some x \<Rightarrow> x > t)"
    using assms(4) by (auto split: option.splits)
  have f: "filter (rate_key ident ep) (rate_limits (update_rate ident ep
             (\<lambda>x. x\<lparr>requests_count := 1, window_start := t, blocked_until := None,
                     updated_at := t\<rparr>) w')) =
           map (\<lambda>x. x\<lparr>requests_count := 1, window_start := t, blocked_until := None,
                     updated_at := t\<rparr>)
             (filter (rate_key ident ep) (rate_limits w'))" for w'
    by (rule filter_update_rate) simp_all
  show "fst (checkRateLimit t ident ep ip w) = True"
    and "rate_state ident ep (snd (checkRateLimit t ident ep ip w)) = [(1, t, None)]"
    and "healthy (snd (checkRateLimit t ident ep ip w))"
    using assms(1,2,5) r nb
    by (simp_all add: checkRateLimit_def db_query_healthy rate_state_def f)
qed

lemma rate_checks_append:
  "rate_checks (ts @ us) ident ep ip w =
     (fst (rate_checks ts ident ep ip w) @
        fst (rate_checks us ident ep ip (snd (rate_checks ts ident ep ip w))),
      snd (rate_checks us ident ep ip (snd (rate_checks ts ident ep ip w))))"
  by (induction ts arbitrary: w) (simp_all add: case_prod_beta)

lemma rate_checks_increment:
  assumes "RATE_LIMITS ep = Some limit" "healthy w" "rate_state ident ep w = [(n, ws, None)]"
    "0 \<le> n" "n + int (length ts) \<le> requests limit" "\<forall>t\<in>set ts. t - window limit < ws"
  shows "fst (rate_checks ts ident ep ip w) = replicate (length ts) True
       \<and> rate_state ident ep (snd (rate_checks ts ident ep ip w)) =
           [(n + int (length ts), ws, None)]
       \<and> healthy (snd (rate_checks ts ident ep ip w))"
  using assms(2-)
proof (induction ts arbitrary: w n)
  case Nil
  then show ?case by simp
next
  case (Cons t ts)
  let ?w1 = "snd (checkRateLimit t ident ep ip w)"
  have st: "fst (checkRateLimit t ident ep ip w) = True"
    "rate_state ident ep ?w1 = [(n + 1, ws, None)]" "healthy ?w1"
    using check_increment[OF assms(1) Cons.prems(1,2), of t ip] Cons.prems(3,4,5) by simp_all
  have "fst (rate_checks ts ident ep ip ?w1) = replicate (length ts) True
       \<and> rate_state ident ep (snd (rate_checks ts ident ep ip ?w1)) =
           [(n + 1 + int (length ts), ws, None)]
       \<and> healthy (snd (rate_checks ts ident ep ip ?w1))"
    by (rule Cons.IH[OF st(3) st(2)]) (use Cons.prems in simp_all)
  then show ?case
    using st(1) by (simp add: case_prod_beta add.assoc)
qed

lemma rate_checks_blocked:
  assumes "RATE_LIMITS ep = Some limit" "healthy w" "rate_state ident ep w = [(n, ws, Some b)]"
    "\<forall>c\<in>set cs. c < b"
  shows "fst (rate_checks cs ident ep ip w) = replicate (length cs) False
       \<and> rate_state ident ep (snd (rate_checks cs ident ep ip w)) = [(n, ws, Some b)]
       \<and> healthy (snd (rate_checks cs ident ep ip w))"
  using assms(2-)
proof (induction cs arbitrary: w)
  case Nil
  then show ?case by simp
next
  case (Cons c cs)
  let ?w1 = "snd (checkRateLimit c ident ep ip w)"
  have st: "fst (checkRateLimit c ident ep ip w) = False"
    "rate_state ident ep ?w1 = [(n, ws, Some b)]" "healthy ?w1"
    using check_blocked[OF assms(1) Cons.prems(1,2), of c ip] Cons.prems(3) by simp_all
  have "fst (rate_checks cs ident ep ip ?w1) = replicate (length cs) False
       \<and> rate_state ident ep (snd (rate_checks cs ident ep ip ?w1)) = [(n, ws, Some b)]
       \<and> healthy (snd (rate_checks cs ident ep ip ?w1))"
    by (rule Cons.IH[OF st(3) st(2)]) (use Cons.prems in simp)
  then show ?case
    using st(1) by (simp add: case_prod_beta)
qed

lemma rate_checks_window:
  assumes l: "RATE_LIMITS ep = Some limit" and h: "healthy w"
    and e: "rate_state ident ep w = []" and v: "varchar 255 ident"
    and k: "ts \<noteq> []" "int (length ts) \<le> requests limit"
    and i: "\<forall>t\<in>set ts. t - window limit < hd ts"
  shows "fst (rate_checks ts ident ep ip w) = replicate (length ts) True
       \<and> rate_state ident ep (snd (rate_checks ts ident ep ip w)) =
           [(int (length ts), hd ts, None)]
       \<and> healthy (snd (rate_checks ts ident ep ip w))"
proof -
  obtain t ts' where ts: "ts = t # ts'" using k(1) by (cases ts) auto
  let ?w1 = "snd (checkRateLimit t ident ep ip w)"
  note st = check_first[OF l h e v, of t ip]
  have "fst (rate_checks ts' ident ep ip ?w1) = replicate (length ts') True
       \<and> rate_state ident ep (snd (rate_checks ts' ident ep ip ?w1)) =
           [(1 + int (length ts'), t, None)]
       \<and> healthy (snd (rate_checks ts' ident ep ip ?w1))"
    by (rule rate_checks_increment[OF l st(3) st(2)]) (use k i ts in simp_all)
  then show ?thesis
    using st(1) ts by (simp add: case_prod_beta)
qed

lemma long_identifier_rejected: "\<not> varchar 255 long_identifier"
  by (simp add: varchar_def long_identifier_def)

text \<open>
  Claim C5, as stated: for every identifier, with no rate-limit record to start from,
  call R+1 inside the window is denied. The identifier \<open>long_identifier\<close> has 256
  characters, one more than \<open>rate_limits.identifier\<close> holds. For the endpoint
  \<^verbatim>\<open>register\<close> (3 calls an hour) and a store that answers every query, each call
  finds no row, its \<^verbatim>\<open>INSERT\<close> raises, and the \<^verbatim>\<open>catch\<close> allows the request: the
  fourth call inside the window is allowed like the first three, and no row is ever
  written.
\<close>

theorem rate_limit_window_counterexample:
  "RATE_LIMITS ''register'' = Some \<lparr>requests = 3, window = 3600000\<rparr>
   \<and> healthy rate_db
   \<and> rate_state long_identifier ''register'' rate_db = []
   \<and> length long_identifier = 256
   \<and> fst (rate_checks [0, 1, 2, 3] long_identifier ''register'' long_identifier rate_db) =
       [True, True, True, True]
   \<and> rate_limits
       (snd (rate_checks [0, 1, 2, 3] long_identifier ''register'' long_identifier rate_db)) = []"
proof (intro conjI)
  show l: "RATE_LIMITS ''register'' = Some \<lparr>requests = 3, window = 3600000\<rparr>"
    by (simp add: RATE_LIMITS_def)
  show "healthy rate_db"
    by (simp add: healthy_def rate_db_def)
  show "rate_state long_identifier ''register'' rate_db = []"
    by (simp add: rate_state_def rate_db_def)
  show "length long_identifier = 256"
    by (simp add: long_identifier_def)
  have step: "checkRateLimit t long_identifier ''register'' long_identifier rate_db =
                (True, rate_db)" for t
    using l long_identifier_rejected
    by (simp add: checkRateLimit_def db_query_def rate_db_def)
  show "fst (rate_checks [0, 1, 2, 3] long_identifier ''register'' long_identifier rate_db) =
       [True, True, True, True]"
    by (simp add: step)
  show "rate_limits
       (snd (rate_checks [0, 1, 2, 3] long_identifier ''register'' long_identifier rate_db)) = []"
    by (simp add: step) (simp add: rate_db_def)
qed

text \<open>
  Claim C5, amended. An endpoint has the limit of \<open>requests limit\<close> calls per
  \<open>window limit\<close> milliseconds, the identifier has at most 255 characters, the pair has
  no rate-limit record, and the store answers every query.
  The calls at the instants \<open>ts\<close>, as many as the limit allows and all inside the window
  the first of them opens, are allowed: after \<open>k\<close> of them the record holds the count
  \<open>k\<close> and the window start of the first call. The next call, at \<open>tb\<close>, still inside
  that window, is denied; it sets \<open>blocked_until\<close> to \<open>tb + window limit\<close> and leaves
  the count. Every call before that instant (at the instants \<open>cs\<close>) is denied and leaves
  the record as it is. The first call at or after it (at \<open>tn\<close>) is allowed and leaves a
  record with count 1, the window starting at \<open>tn\<close>, and no block.
\<close>

theorem rate_limit_window:
  assumes l: "RATE_LIMITS ep = Some limit" and h: "healthy w"
    and e: "rate_state ident ep w = []"
    and len: "length ident \<le> 255"
    and n: "int (length ts) = requests limit"
    and i: "\<forall>t\<in>set ts. t - window limit < hd ts"
    and b: "hd ts \<le> tb" "tb - window limit < hd ts"
    and c: "\<forall>c\<in>set cs. c < tb + window limit"
    and a: "tb + window limit \<le> tn"
  shows "(\<forall>k. 1 \<le> k \<and> k \<le> length ts \<longrightarrow>
            fst (rate_checks (take k ts) ident ep ip w) = replicate k True
          \<and> rate_state ident ep (snd (rate_checks (take k ts) ident ep ip w)) =
              [(int k, hd ts, None)])
       \<and> fst (rate_checks (ts @ [tb]) ident ep ip w) = replicate (length ts) True @ [False]
       \<and> rate_state ident ep (snd (rate_checks (ts @ [tb]) ident ep ip w)) =
           [(requests limit, hd ts, Some (tb + window limit))]
       \<and> fst (rate_checks (ts @ [tb] @ cs) ident ep ip w) =
           replicate (length ts) True @ [False] @ replicate (length cs) False
       \<and> rate_state ident ep (snd (rate_checks (ts @ [tb] @ cs) ident ep ip w)) =
           [(requests limit, hd ts, Some (tb + window limit))]
       \<and> fst (rate_checks (ts @ [tb] @ cs @ [tn]) ident ep ip w) =
           replicate (length ts) True @ [False] @ replicate (length cs) False @ [True]
       \<and> rate_state ident ep (snd (rate_checks (ts @ [tb] @ cs @ [tn]) ident ep ip w)) =
           [(1, tn, None)]"
proof -
  have ne: "ts \<noteq> []" using n RATE_LIMITS_bounds(1)[OF l] by auto
  have v: "varchar 255 ident" using len by (simp add: varchar_def)
  have pre: "fst (rate_checks (take k ts) ident ep ip w) = replicate k True
          \<and> rate_state ident ep (snd (rate_checks (take k ts) ident ep ip w)) =
              [(int k, hd ts, None)]" if k: "1 \<le> k" "k \<le> length ts" for k
  proof -
    have tk: "take k ts \<noteq> []" "length (take k ts) = k" "hd (take k ts) = hd ts"
      using k ne by (cases ts; simp)+
    have "fst (rate_checks (take k ts) ident ep ip w) = replicate (length (take k ts)) True
       \<and> rate_state ident ep (snd (rate_checks (take k ts) ident ep ip w)) =
           [(int (length (take k ts)), hd (take k ts), None)]
       \<and> healthy (snd (rate_checks (take k ts) ident ep ip w))"
    proof (rule rate_checks_window[OF l h e v tk(1)])
      show "int (length (take k ts)) \<le> requests limit" using k n by simp
      show "\<forall>t\<in>set (take k ts). t - window limit < hd (take k ts)"
        using i tk(3) by (auto dest: in_set_takeD)
    qed
    then show ?thesis using tk by simp
  qed
  let ?w1 = "snd (rate_checks ts ident ep ip w)"
  have s1: "fst (rate_checks ts ident ep ip w) = replicate (length ts) True"
    "rate_state ident ep ?w1 = [(requests limit, hd ts, None)]" "healthy ?w1"
    using rate_checks_window[OF l h e v ne _ i, of ip] n by simp_all
  let ?w2 = "snd (checkRateLimit tb ident ep ip ?w1)"
  have s2: "fst (checkRateLimit tb ident ep ip ?w1) = False"
    "rate_state ident ep ?w2 = [(requests limit, hd ts, Some (tb + window limit))]" "healthy ?w2"
    using check_block[OF l s1(3) s1(2), of tb ip] b by simp_all
  let ?w3 = "snd (rate_checks cs ident ep ip ?w2)"
  have s3: "fst (rate_checks cs ident ep ip ?w2) = replicate (length cs) False"
    "rate_state ident ep ?w3 = [(requests limit, hd ts, Some (tb + window limit))]" "healthy ?w3"
    using rate_checks_blocked[OF l s2(3) s2(2), of cs ip] c by simp_all
  let ?w4 = "snd (checkRateLimit tn ident ep ip ?w3)"
  have s4: "fst (checkRateLimit tn ident ep ip ?w3) = True"
    "rate_state ident ep ?w4 = [(1, tn, None)]"
    using check_reset[OF l s3(3) s3(2), of tn ip] a b by simp_all
  show ?thesis
    using pre s1 s2 s3 s4 by (simp add: rate_checks_append case_prod_beta)
qed

theorem rate_limit_window_witness:
  "RATE_LIMITS ''register'' = Some \<lparr>requests = 3, window = 3600000\<rparr>
   \<and> fst (rate_checks ([0, 1, 2] @ [3] @ [4, 3600002] @ [3600003])
           ''1.2.3.4'' ''register'' ''1.2.3.4'' rate_db) =
       [True, True, True, False, False, False, True]
   \<and> rate_state ''1.2.3.4'' ''register''
       (snd (rate_checks ([0, 1, 2] @ [3]) ''1.2.3.4'' ''register'' ''1.2.3.4'' rate_db)) =
       [(3, 0, Some 3600003)]
   \<and> rate_state ''1.2.3.4'' ''register''
       (snd (rate_checks ([0, 1, 2] @ [3] @ [4, 3600002] @ [3600003])
               ''1.2.3.4'' ''register'' ''1.2.3.4'' rate_db)) =
       [(1, 3600003, None)]"
proof -
  let ?limit = "\<lparr>requests = 3, window = 3600000\<rparr>"
  have l: "RATE_LIMITS ''register'' = Some ?limit" by (simp add: RATE_LIMITS_def)
  have h: "healthy rate_db" by (simp add: healthy_def rate_db_def)
  have e: "rate_state ''1.2.3.4'' ''register'' rate_db = []"
    by (simp add: rate_state_def rate_db_def)
  have v: "length ''1.2.3.4'' \<le> 255" by simp
  have n: "int (length [0, 1, 2 :: time]) = requests ?limit" by simp
  have i: "\<forall>t\<in>set [0, 1, 2 :: time]. t - window ?limit < hd [0, 1, 2]" by simp
  have b: "hd [0, 1, 2 :: time] \<le> 3" "3 - window ?limit < hd [0, 1, 2 :: time]" by simp_all
  have c: "\<forall>c\<in>set [4, 3600002 :: time]. c < 3 + window ?limit" by simp
  have a: "3 + window ?limit \<le> (3600003 :: time)" by simp
  from rate_limit_window[OF l h e v n i b c a, of "''1.2.3.4''"] l show ?thesis by simp
qed

end
